theory Spec2Isabelle
  imports Main
begin

section \<open>ClipBeat: the item-cycling engine of \<open>src/main.py\<close>\<close>

subsection \<open>Python strings\<close>

text \<open>
  A Python \<open>str\<close> is a sequence of Unicode code points. A code point is modelled as a
  natural number and a string as a list of them, so that the line boundaries and the
  white space beyond ASCII that \<open>str.splitlines\<close> and \<open>str.strip\<close> recognise are
  part of the model. \<open>ascii\<close> reads an ASCII literal as such a string.
\<close>

type_synonym pystr = "nat list"

definition ascii :: "string \<Rightarrow> pystr" where
  "ascii s = map of_char s"

text \<open>
  The line boundaries of \<open>str.splitlines\<close>: LF, VT, FF, CR, FS, GS, RS, NEL, LINE
  SEPARATOR and PARAGRAPH SEPARATOR.
\<close>

definition is_linebreak :: "nat \<Rightarrow> bool" where
  "is_linebreak c \<longleftrightarrow> c \<in> {0x0A, 0x0B, 0x0C, 0x0D, 0x1C, 0x1D, 0x1E, 0x85, 0x2028, 0x2029}"

text \<open>The white space that \<open>str.strip()\<close> removes (the code points of \<open>str.isspace\<close>).\<close>

definition is_space :: "nat \<Rightarrow> bool" where
  "is_space c \<longleftrightarrow>
     (0x09 \<le> c \<and> c \<le> 0x0D) \<or> (0x1C \<le> c \<and> c \<le> 0x20) \<or> c = 0x85 \<or> c = 0xA0 \<or>
     c = 0x1680 \<or> (0x2000 \<le> c \<and> c \<le> 0x200A) \<or> c = 0x2028 \<or> c = 0x2029 \<or>
     c = 0x202F \<or> c = 0x205F \<or> c = 0x3000"

text \<open>
  \<open>str.splitlines()\<close>: the text is cut at every line boundary, CR LF counting as one;
  the boundaries are not kept, and a text that ends with a boundary has no empty last
  line. \<open>cur\<close> is the line read so far.
\<close>

fun splitlines_from :: "pystr \<Rightarrow> pystr \<Rightarrow> pystr list" where
  "splitlines_from cur [] = (if cur = [] then [] else [cur])"
| "splitlines_from cur (c # cs) =
     (if is_linebreak c then
        (case cs of
           [] \<Rightarrow> [cur]
         | d # ds \<Rightarrow>
             if c = 0x0D \<and> d = 0x0A then cur # splitlines_from [] ds
             else cur # splitlines_from [] (d # ds))
      else splitlines_from (cur @ [c]) cs)"

definition splitlines :: "pystr \<Rightarrow> pystr list" where
  "splitlines s = splitlines_from [] s"

text \<open>\<open>str.strip()\<close>: the white space at both ends is removed.\<close>

definition strip :: "pystr \<Rightarrow> pystr" where
  "strip s = rev (dropWhile is_space (rev (dropWhile is_space s)))"

text \<open>\<open>str(n)\<close> for a Python int: its decimal digits, with a minus sign below zero.\<close>

fun digits :: "nat \<Rightarrow> string" where
  "digits n =
     (if n < 10 then [char_of (48 + n)] else digits (n div 10) @ [char_of (48 + n mod 10)])"

declare digits.simps [simp del]

definition str_int :: "int \<Rightarrow> string" where
  "str_int i = (if i < 0 then CHR ''-'' # digits (nat (- i)) else digits (nat i))"

subsection \<open>Exceptions and list indexing\<close>

text \<open>
  The exceptions that the modelled code can meet: \<open>IndexError\<close> from indexing a list,
  \<open>TclError\<close> from a Tk call (the clipboard), \<open>ValueError\<close> from the hot-key backend
  for a combo that it cannot parse, and any other exception of the backend.
\<close>

datatype exn = IndexError | TclError | ValueError pystr | OtherError pystr

datatype outcome = Returned | Raised exn

text \<open>
  Subscripting a list with a Python int: \<open>xs[i]\<close> is element \<open>i\<close> for \<open>i\<close> from 0 up
  to \<open>len(xs) - 1\<close>, element \<open>len(xs) + i\<close> for \<open>i\<close> from \<open>-len(xs)\<close> up to \<open>-1\<close>,
  and an \<open>IndexError\<close> for every other \<open>i\<close>.
\<close>

definition py_index :: "'a list \<Rightarrow> int \<Rightarrow> exn + 'a" where
  "py_index xs i =
     (if 0 \<le> i \<and> i < int (length xs) then Inr (xs ! nat i)
      else if - int (length xs) \<le> i \<and> i < 0 then Inr (xs ! nat (int (length xs) + i))
      else Inl IndexError)"

subsection \<open>The state of the application\<close>

text \<open>
  The calls that the navigation code makes to the toolkit, in the order it makes them:
  \<open>tag_remove("current_item", "1.0", "end")\<close>, \<open>tag_add("current_item", "l.0", "l.end")\<close>,
  \<open>see("l.0")\<close>, \<open>clipboard_clear()\<close>, \<open>clipboard_append(t)\<close>, \<open>update()\<close> and
  \<open>index_lbl.configure(text=t)\<close>.
\<close>

datatype tk_call =
  Tag_remove | Tag_add nat | See nat | Clipboard_clear | Clipboard_append pystr | Update |
  Label_configure string

text \<open>
  The fields of \<open>ClipBeatApp\<close> that the navigation code reads and writes, and what it
  changes in the toolkit. \<open>textbox\<close> is what \<open>textbox.get("1.0", "end-1c")\<close> returns,
  \<open>label\<close> the text of \<open>index_lbl\<close>, \<open>highlight\<close> the set of lines that carry the tag
  \<open>current_item\<close>, \<open>clipboard\<close> the content of the clipboard, and \<open>calls\<close> the toolkit
  calls made so far. \<open>index\<close> is a Python int; line numbers are counted from 1 upwards
  and are natural numbers.
\<close>

record app =
  textbox :: pystr
  items :: "pystr list"
  line_map :: "nat list"
  index :: int
  label :: string
  highlight :: "nat set"
  clipboard :: pystr
  calls :: "tk_call list"

text \<open>
  Whether the clipboard of the host accepts \<open>clipboard_clear()\<close> and
  \<open>clipboard_append()\<close> during one navigation call; a call that it does not accept
  raises \<open>TclError\<close>.
\<close>

record host =
  clear_ok :: bool
  append_ok :: bool

definition host_ok :: host where
  "host_ok = \<lparr>clear_ok = True, append_ok = True\<rparr>"

text \<open>A statement that raised ends the method: the statements after it do not run.\<close>

definition then_do :: "outcome \<times> 's \<Rightarrow> ('s \<Rightarrow> outcome \<times> 's) \<Rightarrow> outcome \<times> 's" where
  "then_do r f = (case r of (Returned, s) \<Rightarrow> f s | (Raised e, s) \<Rightarrow> (Raised e, s))"

subsection \<open>Data helpers\<close>

text \<open>
  The loop of \<open>_refresh_items\<close> over \<open>enumerate(raw, start=1)\<close>: a line whose
  stripped text is not empty is appended to \<open>items\<close>, and its number to \<open>line_map\<close>.
\<close>

fun refresh_loop :: "nat \<Rightarrow> pystr list \<Rightarrow> pystr list \<times> nat list \<Rightarrow> pystr list \<times> nat list" where
  "refresh_loop lineno [] (its, lm) = (its, lm)"
| "refresh_loop lineno (ln # raw) (its, lm) =
     (if strip ln \<noteq> [] then refresh_loop (lineno + 1) raw (its @ [strip ln], lm @ [lineno])
      else refresh_loop (lineno + 1) raw (its, lm))"

definition refresh_items :: "app \<Rightarrow> app" where
  "refresh_items s =
     (let raw = splitlines (textbox s);
          (its, lm) = refresh_loop 1 raw ([], [])
      in s\<lparr>items := its, line_map := lm,
            index := min (index s) (max 0 (int (length its) - 1))\<rparr>)"

text \<open>
  \<open>_update_label\<close>. Python's \<open>%\<close> with a positive right operand is \<open>mod\<close> on \<open>int\<close>,
  and \<open>total\<close> (here \<open>tot\<close>) is positive where it is the divisor.
\<close>

definition label_text :: "int \<Rightarrow> int \<Rightarrow> string" where
  "label_text i tot =
     str_int (if tot \<noteq> 0 then i mod tot + 1 else 0) @ '' / '' @ str_int tot"

definition update_label :: "app \<Rightarrow> app" where
  "update_label s =
     (let tot = int (length (items s)); t = label_text (index s) tot
      in s\<lparr>label := t, calls := calls s @ [Label_configure t]\<rparr>)"

definition highlight_current :: "app \<Rightarrow> outcome \<times> app" where
  "highlight_current s =
     (let s1 = s\<lparr>highlight := {}, calls := calls s @ [Tag_remove]\<rparr>
      in if items s1 = [] then (Returned, s1)
         else (case py_index (line_map s1) (index s1) of
                 Inl e \<Rightarrow> (Raised e, s1)
               | Inr cur_line \<Rightarrow>
                   (Returned, s1\<lparr>highlight := insert cur_line (highlight s1),
                                 calls := calls s1 @ [Tag_add cur_line, See cur_line]\<rparr>)))"

text \<open>
  \<open>_copy_current\<close>. The argument of \<open>clipboard_append\<close> is subscripted before the
  call; \<open>update()\<close> is recorded as a call and taken to run no handler that writes the
  fields of the state.
\<close>

definition copy_current :: "host \<Rightarrow> app \<Rightarrow> outcome \<times> app" where
  "copy_current h s =
     (if items s \<noteq> [] then
        (let s1 = s\<lparr>calls := calls s @ [Clipboard_clear]\<rparr>
         in if \<not> clear_ok h then (Raised TclError, s1)
            else (let s2 = s1\<lparr>clipboard := []\<rparr>
                  in case py_index (items s2) (index s2) of
                       Inl e \<Rightarrow> (Raised e, s2)
                     | Inr it \<Rightarrow>
                         (let s3 = s2\<lparr>calls := calls s2 @ [Clipboard_append it]\<rparr>
                          in if \<not> append_ok h then (Raised TclError, s3)
                             else (Returned, s3\<lparr>clipboard := clipboard s3 @ it,
                                                calls := calls s3 @ [Update]\<rparr>))))
      else (Returned, s))"

subsection \<open>Navigation\<close>

definition next_item :: "host \<Rightarrow> app \<Rightarrow> outcome \<times> app" where
  "next_item h s =
     (let s1 = refresh_items s
      in if items s1 = [] then (Returned, s1)
         else then_do (highlight_current s1) (\<lambda>s2.
              then_do (copy_current h s2) (\<lambda>s3.
              let s4 = update_label s3
              in (Returned, s4\<lparr>index := (index s4 + 1) mod int (length (items s4))\<rparr>))))"

definition prev_item :: "host \<Rightarrow> app \<Rightarrow> outcome \<times> app" where
  "prev_item h s =
     (let s1 = refresh_items s
      in if items s1 = [] then (Returned, s1)
         else (let s2 = s1\<lparr>index := (index s1 - 1) mod int (length (items s1))\<rparr>
               in then_do (highlight_current s2) (\<lambda>s3.
                  then_do (copy_current h s3) (\<lambda>s4.
                  (Returned, update_label s4)))))"

subsection \<open>The states that the application reaches\<close>

text \<open>
  \<open>__init__\<close> leaves \<open>items\<close> and \<open>line_map\<close> empty and \<open>index\<close> at 0, and
  \<open>_build_widgets\<close> creates an empty text box and the label \<open>0 / 0\<close>; what the
  clipboard holds at that moment is the host's.
\<close>

definition init_app :: "pystr \<Rightarrow> app" where
  "init_app clip =
     \<lparr>textbox = [], items = [], line_map = [], index = 0, label = ''0 / 0'',
      highlight = {}, clipboard = clip, calls = []\<rparr>"

text \<open>
  Between two navigation calls the user edits the text box and other programs write the
  clipboard; a navigation call runs with whatever clipboard behaviour the host has then.
\<close>

inductive reachable :: "app \<Rightarrow> bool" where
  start: "reachable (init_app clip)"
| edit: "reachable s \<Longrightarrow> reachable (s\<lparr>textbox := t\<rparr>)"
| foreign_copy: "reachable s \<Longrightarrow> reachable (s\<lparr>clipboard := c\<rparr>)"
| next_step: "reachable s \<Longrightarrow> reachable (snd (next_item h s))"
| prev_step: "reachable s \<Longrightarrow> reachable (snd (prev_item h s))"

text \<open>
  The words of the specification for the lines that become items: a line is non-blank
  when some character of it is not white space.
\<close>

definition nonblank :: "pystr \<Rightarrow> bool" where
  "nonblank l \<longleftrightarrow> (\<exists>c \<in> set l. \<not> is_space c)"

subsection \<open>Hot-keys\<close>

text \<open>
  A callback calls \<open>next_item\<close> or \<open>prev_item\<close>. The local bindings call the method
  itself (\<open>lambda _: self.next_item()\<close>); the global ones hand it to \<open>tk_safe\<close>
  (\<open>lambda: tk_safe(self.next_item)\<close>).
\<close>

datatype action = Next | Prev

datatype callback = Direct action | Tk_safe action

text \<open>The values that \<open>_GLOBAL_HOOK_BACKEND\<close> is compared with.\<close>

datatype backend = Keyboard | Pynput | No_backend

text \<open>
  The module-level choice of the backend, from whether \<open>keyboard\<close> and \<open>pynput\<close> can
  be imported.
\<close>

definition global_hook_backend :: "bool \<Rightarrow> bool \<Rightarrow> backend" where
  "global_hook_backend keyboard_found pynput_found =
     (let b = (if keyboard_found then Keyboard else No_backend)
      in if pynput_found then b else (if b \<noteq> Keyboard then No_backend else b))"

text \<open>
  The \<open>keyboard\<close> module of the host: which of its functions that clear the hot-keys
  exist in its version, and what \<open>add_hotkey\<close> does with a combo (\<open>None\<close>: the
  hot-key is registered; \<open>Some e\<close>: it raises \<open>e\<close>).
\<close>

record keyboard_lib =
  has_clear_all_hotkeys :: bool
  has_remove_all_hotkeys :: bool
  has_unhook_all_hotkeys :: bool
  add_hotkey :: "pystr \<Rightarrow> exn option"

text \<open>
  What registration reads and writes: \<open>self.hotkeys\<close> (a dict, in the order of its
  keys), the bindings of the window, the hot-keys registered with \<open>keyboard\<close>, the
  messages shown by \<open>messagebox.showerror\<close>, and the hot-key tables of the listener
  threads started.
\<close>

record hooks =
  hotkeys :: "(pystr \<times> pystr) list"
  local_bindings :: "pystr \<rightharpoonup> callback"
  global_hotkeys :: "(pystr \<times> callback) list"
  dialogs :: "pystr list"
  listeners :: "(pystr \<times> callback) list list"

definition bind_local_shortcuts :: "hooks \<Rightarrow> hooks" where
  "bind_local_shortcuts s =
     s\<lparr>local_bindings := (local_bindings s)
           (ascii ''<Right>'' \<mapsto> Direct Next, ascii ''<Left>'' \<mapsto> Direct Prev)\<rparr>"

text \<open>
  \<open>_reset_keyboard_hotkeys\<close>: the first of the three functions that exists clears the
  hot-keys; when none exists the last \<open>AttributeError\<close> is swallowed and the hot-keys
  stay.
\<close>

definition reset_keyboard_hotkeys ::
  "keyboard_lib \<Rightarrow> (pystr \<times> callback) list \<Rightarrow> (pystr \<times> callback) list" where
  "reset_keyboard_hotkeys kb g =
     (if has_clear_all_hotkeys kb then []
      else if has_remove_all_hotkeys kb then []
      else if has_unhook_all_hotkeys kb then []
      else g)"

definition bind_error :: "pystr \<Rightarrow> pystr \<Rightarrow> pystr" where
  "bind_error combo exc = ascii ''Could not bind '' @ combo @ ascii '': '' @ exc"

text \<open>
  The callback that the loop registers for an action:
  \<open>lambda a=action: tk_safe(self.next_item if a == "next" else self.prev_item)\<close>.
\<close>

definition hotkey_callback :: "pystr \<Rightarrow> callback" where
  "hotkey_callback a = Tk_safe (if a = ascii ''next'' then Next else Prev)"

text \<open>
  The loop of \<open>_register_global_hooks\<close> over \<open>self.hotkeys.items()\<close>: only
  \<open>ValueError\<close> is caught.
\<close>

fun register_loop :: "keyboard_lib \<Rightarrow> (pystr \<times> pystr) list \<Rightarrow> hooks \<Rightarrow> outcome \<times> hooks" where
  "register_loop kb [] s = (Returned, s)"
| "register_loop kb ((a, combo) # rest) s =
     (case add_hotkey kb combo of
        None \<Rightarrow>
          register_loop kb rest
            (s\<lparr>global_hotkeys := global_hotkeys s @ [(combo, hotkey_callback a)]\<rparr>)
      | Some (ValueError exc) \<Rightarrow>
          register_loop kb rest (s\<lparr>dialogs := dialogs s @ [bind_error combo exc]\<rparr>)
      | Some e \<Rightarrow> (Raised e, s))"

definition register_global_hooks ::
  "backend \<Rightarrow> bool \<Rightarrow> keyboard_lib \<Rightarrow> hooks \<Rightarrow> outcome \<times> hooks" where
  "register_global_hooks b pynput_found kb s =
     (if b = Keyboard then
        (let s1 = s\<lparr>global_hotkeys := reset_keyboard_hotkeys kb (global_hotkeys s)\<rparr>
         in then_do (register_loop kb (hotkeys s1) s1) (\<lambda>s2.
            case add_hotkey kb (ascii ''ctrl+v'') of
              None \<Rightarrow>
                (Returned,
                 s2\<lparr>global_hotkeys := global_hotkeys s2 @ [(ascii ''ctrl+v'', Tk_safe Next)]\<rparr>)
            | Some e \<Rightarrow> (Raised e, s2)))
      else if b = Pynput \<and> pynput_found then
        (Returned, s\<lparr>listeners := listeners s @ [[(ascii ''<ctrl>+v'', Tk_safe Next)]]\<rparr>)
      else (Returned, s))"

subsection \<open>The example of the specification\<close>

text \<open>The text \<open>a\n\nb\nc\<close>, typed into the text box of the application just started.\<close>

definition example_text :: pystr where
  "example_text = ascii ''a\<newline>\<newline>b\<newline>c''"

definition example_app :: app where
  "example_app = (init_app [])\<lparr>textbox := example_text\<rparr>"

text \<open>
  The application after two calls of \<open>next_item\<close> on that text, and then with the text
  box emptied, with only white space left in it, and with a single line left in it.
\<close>

definition after_two :: app where
  "after_two = snd (next_item host_ok (snd (next_item host_ok example_app)))"

definition emptied_app :: app where
  "emptied_app = after_two\<lparr>textbox := []\<rparr>"

definition blank_app :: app where
  "blank_app = after_two\<lparr>textbox := ascii ''  \<newline> ''\<rparr>"

definition shrunk_app :: app where
  "shrunk_app = after_two\<lparr>textbox := ascii ''x''\<rparr>"

text \<open>A host whose clipboard refuses \<open>clipboard_clear()\<close>, as when another process holds it.\<close>

definition failing_host :: host where
  "failing_host = \<lparr>clear_ok = False, append_ok = True\<rparr>"

subsection \<open>Registration, in the words of the specification\<close>

text \<open>
  Each binding on its own: the hot-keys registered are those of the bindings whose combo
  the backend accepts, the errors reported are those of the bindings whose combo it
  rejects with a \<open>ValueError\<close>, both in the order of the bindings.
\<close>

definition accepted :: "keyboard_lib \<Rightarrow> (pystr \<times> pystr) list \<Rightarrow> (pystr \<times> callback) list" where
  "accepted kb hk =
     concat (map (\<lambda>(a, combo).
       case add_hotkey kb combo of
         None \<Rightarrow> [(combo, hotkey_callback a)]
       | Some e \<Rightarrow> []) hk)"

definition reported :: "keyboard_lib \<Rightarrow> (pystr \<times> pystr) list \<Rightarrow> pystr list" where
  "reported kb hk =
     concat (map (\<lambda>(a, combo).
       case add_hotkey kb combo of
         Some (ValueError exc) \<Rightarrow> [bind_error combo exc]
       | _ \<Rightarrow> []) hk)"

text \<open>The backend rejects a combo by \<open>ValueError\<close> and raises nothing else on these combos.\<close>

definition value_errors_only :: "keyboard_lib \<Rightarrow> pystr list \<Rightarrow> bool" where
  "value_errors_only kb combos =
     list_all (\<lambda>c. case add_hotkey kb c of
                      None \<Rightarrow> True
                    | Some (ValueError exc) \<Rightarrow> True
                    | Some e \<Rightarrow> False) combos"

definition can_reset :: "keyboard_lib \<Rightarrow> bool" where
  "can_reset kb \<longleftrightarrow>
     has_clear_all_hotkeys kb \<or> has_remove_all_hotkeys kb \<or> has_unhook_all_hotkeys kb"

text \<open>
  The example of the specification: the bindings \<open>{next: "bad!!combo", prev: "ctrl+left"}\<close>,
  a backend that rejects \<open>bad!!combo\<close>, and a window whose local shortcuts are bound
  and whose two default hot-keys are registered from before.
\<close>

definition example_keyboard :: keyboard_lib where
  "example_keyboard =
     \<lparr>has_clear_all_hotkeys = False, has_remove_all_hotkeys = False,
      has_unhook_all_hotkeys = True,
      add_hotkey = (\<lambda>c. if c = ascii ''bad!!combo''
                         then Some (ValueError (ascii ''unknown key'')) else None)\<rparr>"

definition example_hooks :: hooks where
  "example_hooks =
     bind_local_shortcuts
       \<lparr>hotkeys = [(ascii ''next'', ascii ''bad!!combo''), (ascii ''prev'', ascii ''ctrl+left'')],
        local_bindings = Map.empty,
        global_hotkeys = [(ascii ''ctrl+shift+alt+right'', Tk_safe Next),
                          (ascii ''ctrl+shift+alt+left'', Tk_safe Prev),
                          (ascii ''ctrl+v'', Tk_safe Next)],
        dialogs = [], listeners = []\<rparr>"

subsection \<open>The lines of the text box\<close>

text \<open>
  The lines of the text as the Text widget numbers them, line \<open>l\<close> being the one that
  the index \<open>l.0\<close> names: the widget ends a line at LF and nowhere else. The widget
  belongs to the toolkit; this is its documented numbering, and the one that
  \<open>line_map\<close> is meant to hold (``map item index -> Text line number'').
\<close>

fun text_lines_from :: "pystr \<Rightarrow> pystr \<Rightarrow> pystr list" where
  "text_lines_from cur [] = [cur]"
| "text_lines_from cur (c # cs) =
     (if c = 0x0A then cur # text_lines_from [] cs else text_lines_from (cur @ [c]) cs)"

definition text_lines :: "pystr \<Rightarrow> pystr list" where
  "text_lines t = text_lines_from [] t"

text \<open>
  A text of two lines, \<open>a\<close>, a vertical tab and \<open>b\<close> on the first and \<open>c\<close> on the
  second, typed or pasted into the text box of the application just started.
\<close>

definition tab_text :: pystr where
  "tab_text = [0x61, 0x0B, 0x62, 0x0A, 0x63]"

definition tab_app :: app where
  "tab_app = (init_app [])\<lparr>textbox := tab_text\<rparr>"

section \<open>Properties\<close>

subsection \<open>Stripping and splitting\<close>

lemma strip_empty_iff: "strip l = [] \<longleftrightarrow> (\<forall>c \<in> set l. is_space c)"
proof -
  have "strip l = [] \<longleftrightarrow> dropWhile is_space (rev (dropWhile is_space l)) = []"
    by (simp add: strip_def)
  also have "\<dots> \<longleftrightarrow> (\<forall>c \<in> set (dropWhile is_space l). is_space c)"
    by (simp add: dropWhile_eq_Nil_conv)
  also have "\<dots> \<longleftrightarrow> (\<forall>c \<in> set l. is_space c)"
  proof
    assume a: "\<forall>c \<in> set (dropWhile is_space l). is_space c"
    show "\<forall>c \<in> set l. is_space c"
    proof (cases "dropWhile is_space l")
      case Nil
      then show ?thesis by (simp add: dropWhile_eq_Nil_conv)
    next
      case (Cons x xs)
      then have "\<not> is_space x" using hd_dropWhile [of is_space l] by simp
      moreover have "is_space x" using a Cons by simp
      ultimately show ?thesis by simp
    qed
  next
    assume "\<forall>c \<in> set l. is_space c"
    then show "\<forall>c \<in> set (dropWhile is_space l). is_space c"
      using set_dropWhileD by fastforce
  qed
  finally show ?thesis .
qed

lemma strip_nonblank: "strip l \<noteq> [] \<longleftrightarrow> nonblank l"
  by (simp add: strip_empty_iff nonblank_def)

lemma refresh_loop_enumerate:
  "refresh_loop k raw (its, lm) =
     (its @ map (strip \<circ> snd) (filter (\<lambda>(i, l). strip l \<noteq> []) (enumerate k raw)),
      lm @ map fst (filter (\<lambda>(i, l). strip l \<noteq> []) (enumerate k raw)))"
  by (induction raw arbitrary: k its lm) simp_all

lemma strip_decomp:
  "\<exists>a b. l = a @ strip l @ b \<and> (\<forall>c \<in> set a. is_space c) \<and> (\<forall>c \<in> set b. is_space c)"
proof -
  let ?m = "dropWhile is_space l"
  have 1: "l = takeWhile is_space l @ ?m" by simp
  have 2: "rev ?m = takeWhile is_space (rev ?m) @ dropWhile is_space (rev ?m)" by simp
  have "?m = rev (dropWhile is_space (rev ?m)) @ rev (takeWhile is_space (rev ?m))"
    using 2 by (metis rev_append rev_rev_ident)
  then have "l = takeWhile is_space l @ strip l @ rev (takeWhile is_space (rev ?m))"
    using 1 by (simp add: strip_def)
  moreover have "\<forall>c \<in> set (takeWhile is_space l). is_space c"
    using set_takeWhileD by fastforce
  moreover have "\<forall>c \<in> set (rev (takeWhile is_space (rev ?m))). is_space c"
    using set_takeWhileD by fastforce
  ultimately show ?thesis by blast
qed

lemma last_dropWhile_keep:
  assumes "dropWhile P xs \<noteq> []"
  shows "last (dropWhile P xs) = last xs"
proof -
  have "dropWhile P xs = drop (length (takeWhile P xs)) xs"
    by (rule dropWhile_eq_drop)
  moreover have "length (takeWhile P xs) < length xs"
    using assms by (metis calculation drop_eq_Nil not_le_imp_less)
  ultimately show ?thesis by (simp add: last_drop)
qed

lemma strip_ends:
  assumes "strip l \<noteq> []"
  shows "\<not> is_space (hd (strip l))" and "\<not> is_space (last (strip l))"
proof -
  let ?m = "dropWhile is_space l"
  let ?r = "dropWhile is_space (rev ?m)"
  have r: "?r \<noteq> []" using assms by (simp add: strip_def)
  then have "\<not> is_space (hd ?r)" by (rule hd_dropWhile)
  then show "\<not> is_space (last (strip l))" using r by (simp add: strip_def last_rev)
  have m: "?m \<noteq> []"
  proof
    assume a: "?m = []"
    have "?r = dropWhile is_space (rev [])" by (simp only: a)
    with r show False by simp
  qed
  then have hm: "\<not> is_space (hd ?m)" by (rule hd_dropWhile)
  have "hd (strip l) = last ?r" using r by (simp add: strip_def hd_rev)
  also have "\<dots> = last (rev ?m)" using r by (rule last_dropWhile_keep)
  also have "\<dots> = hd ?m" using m by (simp add: last_rev)
  finally show "\<not> is_space (hd (strip l))" using hm by simp
qed


lemma enumerate_nth: "enumerate k xs = map (\<lambda>i. (k + i, xs ! i)) [0..<length xs]"
  by (rule nth_equalityI) (simp_all add: nth_enumerate_eq)

lemma filter_nth_upt: "filter P xs = map (nth xs) (filter (\<lambda>i. P (xs ! i)) [0..<length xs])"
proof -
  have "filter P xs = filter P (map (nth xs) [0..<length xs])"
    by (simp add: map_nth)
  also have "\<dots> = map (nth xs) (filter (P \<circ> nth xs) [0..<length xs])"
    by (rule filter_map)
  finally show ?thesis by (simp add: o_def)
qed

lemma refresh_loop_closed:
  "refresh_loop k raw ([], []) =
     (map strip (filter nonblank raw),
      map (\<lambda>i. k + i) (filter (\<lambda>i. nonblank (raw ! i)) [0..<length raw]))"
proof -
  let ?P = "\<lambda>(i, l). strip l \<noteq> []"
  have P: "?P = (\<lambda>p. nonblank (snd p))"
    by (auto simp: strip_nonblank)
  have 1: "map (strip \<circ> snd) (filter ?P (enumerate k raw)) = map strip (filter nonblank raw)"
  proof -
    have "filter ?P (enumerate k raw) = filter (nonblank \<circ> snd) (enumerate k raw)"
      by (simp add: P o_def)
    also have "map snd \<dots> = filter nonblank (map snd (enumerate k raw))"
      by (rule filter_map [symmetric])
    finally have "map snd (filter ?P (enumerate k raw)) = filter nonblank raw"
      by simp
    then have "map strip (map snd (filter ?P (enumerate k raw))) = map strip (filter nonblank raw)"
      by (rule arg_cong)
    then show ?thesis by (simp only: map_map)
  qed
  have 2: "map fst (filter ?P (enumerate k raw)) =
             map (\<lambda>i. k + i) (filter (\<lambda>i. nonblank (raw ! i)) [0..<length raw])"
    by (simp add: P enumerate_nth filter_map o_def)
  show ?thesis by (simp only: refresh_loop_enumerate append_Nil 1 2)
qed

lemma refresh_items_items:
  "items (refresh_items s) = map strip (filter nonblank (splitlines (textbox s)))"
  by (simp add: refresh_items_def refresh_loop_closed Let_def)

lemma refresh_items_line_map:
  "line_map (refresh_items s) =
     map Suc (filter (\<lambda>i. nonblank (splitlines (textbox s) ! i)) [0..<length (splitlines (textbox s))])"
  by (simp add: refresh_items_def refresh_loop_closed Let_def)

lemma refresh_items_lengths:
  "length (line_map (refresh_items s)) = length (items (refresh_items s))"
proof -
  have "length (filter nonblank (splitlines (textbox s))) =
        length (filter (\<lambda>i. nonblank (splitlines (textbox s) ! i)) [0..<length (splitlines (textbox s))])"
    by (subst filter_nth_upt [of nonblank]) simp
  then show ?thesis by (simp add: refresh_items_items refresh_items_line_map)
qed

lemma refresh_items_frame:
  "textbox (refresh_items s) = textbox s \<and> label (refresh_items s) = label s \<and>
   highlight (refresh_items s) = highlight s \<and> clipboard (refresh_items s) = clipboard s \<and>
   calls (refresh_items s) = calls s"
  by (simp add: refresh_items_def Let_def split: prod.splits)

lemma splitlines_Nil: "splitlines [] = []"
  by (simp add: splitlines_def)

lemma example_lines:
  "splitlines (textbox example_app) = [ascii ''a'', [], ascii ''b'', ascii ''c'']"
  by (simp add: example_app_def example_text_def init_app_def ascii_def splitlines_def
      is_linebreak_def)

subsection \<open>The item parser\<close>

text \<open>
  \<open>_refresh_items\<close> against \<open>str.splitlines\<close>. Let \<open>ls\<close> be what \<open>splitlines\<close> makes
  of the text and \<open>k\<close> the number of non-blank entries of \<open>ls\<close>. The items are these
  \<open>k\<close> entries in their order, each stripped; the numbers of \<open>line_map\<close> are their
  1-based positions in \<open>ls\<close>, strictly increasing; an empty text yields no items; and
  nothing but \<open>items\<close>, \<open>line_map\<close> and \<open>index\<close> changes. Whether a position in \<open>ls\<close>
  is the line number of the text box is another matter, settled below.
\<close>

lemma refresh_items_by_splitlines:
  "let ls = splitlines (textbox s); s' = refresh_items s; k = length (filter nonblank ls)
   in items s' = map strip (filter nonblank ls) \<and>
      line_map s' = map Suc (filter (\<lambda>i. nonblank (ls ! i)) [0..<length ls]) \<and>
      length (items s') = k \<and> length (line_map s') = k \<and>
      sorted_wrt (<) (line_map s') \<and>
      (\<forall>j<k. 1 \<le> line_map s' ! j \<and> line_map s' ! j \<le> length ls \<and>
              nonblank (ls ! (line_map s' ! j - 1)) \<and>
              items s' ! j = strip (ls ! (line_map s' ! j - 1)) \<and> items s' ! j \<noteq> []) \<and>
      (\<forall>i<length ls. Suc i \<in> set (line_map s') \<longleftrightarrow> nonblank (ls ! i)) \<and>
      (textbox s = [] \<longrightarrow> items s' = [] \<and> line_map s' = []) \<and>
      textbox s' = textbox s \<and> label s' = label s \<and> highlight s' = highlight s \<and>
      clipboard s' = clipboard s \<and> calls s' = calls s"
proof -
  define ls where "ls = splitlines (textbox s)"
  define s' where "s' = refresh_items s"
  define js where "js = filter (\<lambda>i. nonblank (ls ! i)) [0..<length ls]"
  define k where "k = length (filter nonblank ls)"
  have it: "items s' = map strip (filter nonblank ls)"
    by (simp add: s'_def ls_def refresh_items_items)
  have lm: "line_map s' = map Suc js"
    by (simp add: s'_def ls_def js_def refresh_items_line_map)
  have fl: "filter nonblank ls = map (nth ls) js"
    unfolding js_def by (rule filter_nth_upt)
  have kjs: "length js = k" by (simp add: k_def fl)
  have len: "length (items s') = k" "length (line_map s') = k"
    by (simp_all add: it lm kjs k_def)
  have js_set: "set js = {i. i < length ls \<and> nonblank (ls ! i)}"
    by (auto simp: js_def)
  have srt: "sorted_wrt (<) (line_map s')"
    unfolding lm js_def by (simp add: sorted_wrt_map sorted_wrt_filter)
  have each: "\<forall>j<k. 1 \<le> line_map s' ! j \<and> line_map s' ! j \<le> length ls \<and>
              nonblank (ls ! (line_map s' ! j - 1)) \<and>
              items s' ! j = strip (ls ! (line_map s' ! j - 1)) \<and> items s' ! j \<noteq> []"
  proof (intro allI impI)
    fix j assume j: "j < k"
    then have mem: "js ! j \<in> set js" using kjs by simp
    then have b: "js ! j < length ls" and nb: "nonblank (ls ! (js ! j))"
      using js_set by auto
    have l: "line_map s' ! j = Suc (js ! j)" using j kjs by (simp add: lm)
    have i: "items s' ! j = strip (ls ! (js ! j))" using j kjs by (simp add: it fl)
    show "1 \<le> line_map s' ! j \<and> line_map s' ! j \<le> length ls \<and>
              nonblank (ls ! (line_map s' ! j - 1)) \<and>
              items s' ! j = strip (ls ! (line_map s' ! j - 1)) \<and> items s' ! j \<noteq> []"
      using b nb l i by (simp add: strip_nonblank)
  qed
  have incl: "\<forall>i<length ls. Suc i \<in> set (line_map s') \<longleftrightarrow> nonblank (ls ! i)"
    by (auto simp: lm js_set)
  have emp: "textbox s = [] \<longrightarrow> items s' = [] \<and> line_map s' = []"
    by (simp add: it lm js_def ls_def splitlines_Nil)
  have fr: "textbox s' = textbox s \<and> label s' = label s \<and> highlight s' = highlight s \<and>
      clipboard s' = clipboard s \<and> calls s' = calls s"
    unfolding s'_def by (rule refresh_items_frame)
  show ?thesis
    unfolding Let_def ls_def [symmetric] s'_def [symmetric] k_def [symmetric] js_def [symmetric]
    using it lm len srt each incl emp fr unfolding js_def by blast
qed

lemma refresh_items_by_splitlines_example:
  "(1::nat) < length (filter nonblank (splitlines (textbox example_app))) \<and>
   (2::nat) < length (splitlines (textbox example_app)) \<and>
   nonblank (splitlines (textbox example_app) ! 2) \<and>
   items (refresh_items example_app) = [ascii ''a'', ascii ''b'', ascii ''c''] \<and>
   line_map (refresh_items example_app) = [1, 3, 4] \<and>
   items (refresh_items example_app) ! 1 =
     strip (splitlines (textbox example_app) ! (line_map (refresh_items example_app) ! 1 - 1)) \<and>
   Suc 2 \<in> set (line_map (refresh_items example_app)) \<and>
   textbox (init_app []) = [] \<and> items (refresh_items (init_app [])) = []"
  using refresh_items_by_splitlines [of example_app]
    refresh_items_by_splitlines [of "init_app []"]
  by (simp add: Let_def example_lines nonblank_def is_space_def ascii_def strip_def
      init_app_def splitlines_Nil)

subsection \<open>One navigation step\<close>

lemma py_index_in_range:
  "0 \<le> i \<Longrightarrow> i < int (length xs) \<Longrightarrow> py_index xs i = Inr (xs ! nat i)"
  by (simp add: py_index_def)

lemma refresh_items_index:
  "index (refresh_items s) = min (index s) (max 0 (int (length (items (refresh_items s))) - 1))"
  by (simp add: refresh_items_def Let_def split: prod.splits)

lemma refresh_items_cursor:
  assumes "0 \<le> index s" and "items (refresh_items s) \<noteq> []"
  shows "0 \<le> index (refresh_items s)"
    and "index (refresh_items s) < int (length (items (refresh_items s)))"
proof -
  have "0 < length (items (refresh_items s))" using assms(2) by simp
  then show "0 \<le> index (refresh_items s)"
    and "index (refresh_items s) < int (length (items (refresh_items s)))"
    using assms(1) by (simp_all add: refresh_items_index [of s])
qed

lemma refresh_items_empty:
  assumes "items (refresh_items s) = []"
  shows "refresh_items s = s\<lparr>items := [], line_map := [], index := min (index s) 0\<rparr>"
proof -
  have "line_map (refresh_items s) = []"
    using refresh_items_lengths [of s] assms by simp
  moreover have "index (refresh_items s) = min (index s) 0"
    using refresh_items_index [of s] assms by simp
  ultimately show ?thesis
    using assms by (simp add: refresh_items_def Let_def split: prod.splits)
qed

lemma label_text_in_range:
  "0 \<le> c \<Longrightarrow> c < n \<Longrightarrow> label_text c n = str_int (c + 1) @ '' / '' @ str_int n"
  by (simp add: label_text_def)

lemma next_item_empty:
  "items (refresh_items s) = [] \<Longrightarrow> next_item h s = (Returned, refresh_items s)"
  by (simp add: next_item_def Let_def)

lemma prev_item_empty:
  "items (refresh_items s) = [] \<Longrightarrow> prev_item h s = (Returned, refresh_items s)"
  by (simp add: prev_item_def Let_def)

lemma highlight_current_in_range:
  assumes "0 \<le> index s" and "index s < int (length (items s))"
    and "length (line_map s) = length (items s)"
  shows "highlight_current s =
     (Returned, s\<lparr>highlight := {line_map s ! nat (index s)},
                   calls := calls s @ [Tag_remove, Tag_add (line_map s ! nat (index s)),
                                        See (line_map s ! nat (index s))]\<rparr>)"
proof -
  have "items s \<noteq> []" using assms by auto
  moreover have "py_index (line_map s) (index s) = Inr (line_map s ! nat (index s))"
    using assms by (simp add: py_index_in_range)
  ultimately show ?thesis by (simp add: highlight_current_def Let_def)
qed

lemma copy_current_in_range:
  assumes "0 \<le> index s" and "index s < int (length (items s))"
  shows "copy_current h s =
     (if \<not> clear_ok h then (Raised TclError, s\<lparr>calls := calls s @ [Clipboard_clear]\<rparr>)
      else if \<not> append_ok h then
        (Raised TclError,
         s\<lparr>clipboard := [],
           calls := calls s @ [Clipboard_clear, Clipboard_append (items s ! nat (index s))]\<rparr>)
      else
        (Returned,
         s\<lparr>clipboard := items s ! nat (index s),
           calls := calls s @ [Clipboard_clear, Clipboard_append (items s ! nat (index s)),
                               Update]\<rparr>))"
proof -
  have "items s \<noteq> []" using assms by auto
  moreover have "py_index (items s) (index s) = Inr (items s ! nat (index s))"
    using assms by (simp add: py_index_in_range)
  ultimately show ?thesis by (simp add: copy_current_def Let_def)
qed


lemma next_item_nonempty:
  assumes "0 \<le> index s" and "items (refresh_items s) \<noteq> []"
  shows "next_item h s =
    (let s1 = refresh_items s; c = index s1; n = int (length (items s1));
         l = line_map s1 ! nat c; it = items s1 ! nat c;
         s2 = s1\<lparr>highlight := {l}, calls := calls s @ [Tag_remove, Tag_add l, See l]\<rparr>
     in if \<not> clear_ok h then
          (Raised TclError, s2\<lparr>calls := calls s2 @ [Clipboard_clear]\<rparr>)
        else if \<not> append_ok h then
          (Raised TclError,
           s2\<lparr>clipboard := [], calls := calls s2 @ [Clipboard_clear, Clipboard_append it]\<rparr>)
        else
          (Returned,
           s2\<lparr>clipboard := it, label := label_text c n,
              calls := calls s2 @ [Clipboard_clear, Clipboard_append it, Update,
                                   Label_configure (label_text c n)],
              index := (c + 1) mod n\<rparr>))"
proof -
  define s1 where "s1 = refresh_items s"
  define l where "l = line_map s1 ! nat (index s1)"
  define s2 where "s2 = s1\<lparr>highlight := {l}, calls := calls s @ [Tag_remove, Tag_add l, See l]\<rparr>"
  have ne: "items s1 \<noteq> []" using assms(2) by (simp add: s1_def)
  have c: "0 \<le> index s1" "index s1 < int (length (items s1))"
    using refresh_items_cursor [OF assms] by (simp_all add: s1_def)
  have len: "length (line_map s1) = length (items s1)"
    by (simp add: s1_def refresh_items_lengths)
  have cs: "calls s1 = calls s" by (simp add: s1_def refresh_items_frame)
  have hl: "highlight_current s1 = (Returned, s2)"
    using highlight_current_in_range [OF c len] by (simp add: s2_def l_def cs)
  have c2: "0 \<le> index s2" "index s2 < int (length (items s2))"
    using c by (simp_all add: s2_def)
  note cp = copy_current_in_range [OF c2, of h]
  have "next_item h s = then_do (copy_current h s2) (\<lambda>s3.
              let s4 = update_label s3
              in (Returned, s4\<lparr>index := (index s4 + 1) mod int (length (items s4))\<rparr>))"
    using ne hl by (simp add: next_item_def Let_def s1_def [symmetric] then_do_def)
  also have "\<dots> =
     (if \<not> clear_ok h then
          (Raised TclError, s2\<lparr>calls := calls s2 @ [Clipboard_clear]\<rparr>)
        else if \<not> append_ok h then
          (Raised TclError,
           s2\<lparr>clipboard := [],
              calls := calls s2 @ [Clipboard_clear, Clipboard_append (items s1 ! nat (index s1))]\<rparr>)
        else
          (Returned,
           s2\<lparr>clipboard := items s1 ! nat (index s1),
              label := label_text (index s1) (int (length (items s1))),
              calls := calls s2 @ [Clipboard_clear, Clipboard_append (items s1 ! nat (index s1)),
                 Update, Label_configure (label_text (index s1) (int (length (items s1))))],
              index := (index s1 + 1) mod int (length (items s1))\<rparr>))"
    unfolding cp by (simp add: then_do_def update_label_def Let_def s2_def)
  finally show ?thesis
    by (simp add: Let_def s1_def [symmetric] l_def [symmetric] s2_def [symmetric])
qed

lemma prev_item_nonempty:
  assumes "0 \<le> index s" and "items (refresh_items s) \<noteq> []"
  shows "prev_item h s =
    (let s1 = refresh_items s; n = int (length (items s1)); c = (index s1 - 1) mod n;
         l = line_map s1 ! nat c; it = items s1 ! nat c;
         s2 = s1\<lparr>index := c, highlight := {l},
                 calls := calls s @ [Tag_remove, Tag_add l, See l]\<rparr>
     in if \<not> clear_ok h then
          (Raised TclError, s2\<lparr>calls := calls s2 @ [Clipboard_clear]\<rparr>)
        else if \<not> append_ok h then
          (Raised TclError,
           s2\<lparr>clipboard := [], calls := calls s2 @ [Clipboard_clear, Clipboard_append it]\<rparr>)
        else
          (Returned,
           s2\<lparr>clipboard := it, label := label_text c n,
              calls := calls s2 @ [Clipboard_clear, Clipboard_append it, Update,
                                   Label_configure (label_text c n)]\<rparr>))"
proof -
  define s1 where "s1 = refresh_items s"
  define n where "n = int (length (items s1))"
  define c where "c = (index s1 - 1) mod n"
  define l where "l = line_map s1 ! nat c"
  define sm where "sm = s1\<lparr>index := c\<rparr>"
  define s2 where "s2 = s1\<lparr>index := c, highlight := {l},
                 calls := calls s @ [Tag_remove, Tag_add l, See l]\<rparr>"
  have ne: "items s1 \<noteq> []" using assms(2) by (simp add: s1_def)
  then have n: "0 < n" by (simp add: n_def)
  have c: "0 \<le> c" "c < n" using n by (simp_all add: c_def)
  have len: "length (line_map s1) = length (items s1)"
    by (simp add: s1_def refresh_items_lengths)
  have cs: "calls s1 = calls s" by (simp add: s1_def refresh_items_frame)
  have m: "0 \<le> index sm" "index sm < int (length (items sm))"
       "length (line_map sm) = length (items sm)"
    using c len by (simp_all add: sm_def n_def)
  have hl: "highlight_current sm = (Returned, s2)"
    using highlight_current_in_range [OF m] by (simp add: s2_def l_def cs sm_def)
  have c2: "0 \<le> index s2" "index s2 < int (length (items s2))"
    using c by (simp_all add: s2_def n_def)
  note cp = copy_current_in_range [OF c2, of h]
  have "prev_item h s = then_do (copy_current h s2) (\<lambda>s4. (Returned, update_label s4))"
    using ne hl
    by (simp add: prev_item_def Let_def s1_def [symmetric] then_do_def sm_def c_def n_def)
  also have "\<dots> =
     (if \<not> clear_ok h then
          (Raised TclError, s2\<lparr>calls := calls s2 @ [Clipboard_clear]\<rparr>)
        else if \<not> append_ok h then
          (Raised TclError,
           s2\<lparr>clipboard := [],
              calls := calls s2 @ [Clipboard_clear, Clipboard_append (items s1 ! nat c)]\<rparr>)
        else
          (Returned,
           s2\<lparr>clipboard := items s1 ! nat c, label := label_text c n,
              calls := calls s2 @ [Clipboard_clear, Clipboard_append (items s1 ! nat c),
                 Update, Label_configure (label_text c n)]\<rparr>))"
    unfolding cp by (simp add: then_do_def update_label_def Let_def s2_def n_def)
  finally show ?thesis
    by (simp add: Let_def s1_def [symmetric] n_def [symmetric] c_def [symmetric]
        l_def [symmetric] s2_def [symmetric])
qed

subsection \<open>The cursor is never negative\<close>

lemma next_item_index_nonneg:
  assumes "0 \<le> index s"
  shows "0 \<le> index (snd (next_item h s))"
proof (cases "items (refresh_items s) = []")
  case True
  then show ?thesis
    using assms by (simp add: next_item_empty refresh_items_empty [OF True])
next
  case False
  have c: "0 \<le> index (refresh_items s)"
    using refresh_items_cursor(1) [OF assms False] .
  have n: "0 < int (length (items (refresh_items s)))" using False by simp
  show ?thesis
    unfolding next_item_nonempty [OF assms False] using c n by (simp add: Let_def)
qed

lemma prev_item_index_nonneg:
  assumes "0 \<le> index s"
  shows "0 \<le> index (snd (prev_item h s))"
proof (cases "items (refresh_items s) = []")
  case True
  then show ?thesis
    using assms by (simp add: prev_item_empty refresh_items_empty [OF True])
next
  case False
  then have "0 < int (length (items (refresh_items s)))" by simp
  then show ?thesis
    unfolding prev_item_nonempty [OF assms False] by (simp add: Let_def)
qed

lemma reachable_index_nonneg: "reachable s \<Longrightarrow> 0 \<le> index s"
proof (induction rule: reachable.induct)
  case (start clip)
  show ?case by (simp add: init_app_def)
next
  case (edit s t)
  then show ?case by simp
next
  case (foreign_copy s c)
  then show ?case by simp
next
  case (next_step s h)
  then show ?case by (simp add: next_item_index_nonneg)
next
  case (prev_step s h)
  then show ?case by (simp add: prev_item_index_nonneg)
qed

lemma example_reachable: "reachable example_app"
  unfolding example_app_def by (intro reachable.intros)

subsection \<open>Advancing\<close>

lemma example_text_lines:
  "splitlines example_text = [ascii ''a'', [], ascii ''b'', ascii ''c'']"
  by (simp add: example_text_def ascii_def splitlines_def is_linebreak_def)

lemma example_refresh:
  assumes "textbox s = example_text"
  shows "items (refresh_items s) = [ascii ''a'', ascii ''b'', ascii ''c'']"
    and "line_map (refresh_items s) = [1, 3, 4]"
proof -
  have nb: "filter nonblank [ascii ''a'', [], ascii ''b'', ascii ''c''] =
            [ascii ''a'', ascii ''b'', ascii ''c'']"
    by (simp add: nonblank_def is_space_def ascii_def)
  have st: "map strip [ascii ''a'', ascii ''b'', ascii ''c''] = [ascii ''a'', ascii ''b'', ascii ''c'']"
    by (simp add: strip_def is_space_def ascii_def)
  show "items (refresh_items s) = [ascii ''a'', ascii ''b'', ascii ''c'']"
    by (simp only: refresh_items_items assms example_text_lines nb st)
  have up: "[0..<4] = [0, 1, 2, 3::nat]" by (simp add: upt_rec)
  show "line_map (refresh_items s) = [1, 3, 4]"
    unfolding refresh_items_line_map assms example_text_lines
    by (simp add: up nonblank_def is_space_def ascii_def)
qed

lemma example_step:
  assumes t: "textbox s = example_text" and lo: "0 \<le> index s" and hi: "index s \<le> 2"
  shows "next_item host_ok s =
    (Returned,
     s\<lparr>items := [ascii ''a'', ascii ''b'', ascii ''c''], line_map := [1, 3, 4],
       highlight := {[1, 3, 4] ! nat (index s)},
       clipboard := [ascii ''a'', ascii ''b'', ascii ''c''] ! nat (index s),
       label := label_text (index s) 3,
       calls := calls s @
         [Tag_remove, Tag_add ([1, 3, 4] ! nat (index s)), See ([1, 3, 4] ! nat (index s)),
          Clipboard_clear,
          Clipboard_append ([ascii ''a'', ascii ''b'', ascii ''c''] ! nat (index s)), Update,
          Label_configure (label_text (index s) 3)],
       index := (index s + 1) mod 3\<rparr>)"
proof -
  note r = example_refresh [OF t]
  have ne: "items (refresh_items s) \<noteq> []" by (simp add: r)
  have i: "index (refresh_items s) = index s"
    using hi by (simp add: refresh_items_index [of s] r)
  have rs: "refresh_items s = s\<lparr>items := [ascii ''a'', ascii ''b'', ascii ''c''],
              line_map := [1, 3, 4]\<rparr>"
  proof -
    have "refresh_items s = s\<lparr>items := items (refresh_items s),
              line_map := line_map (refresh_items s), index := index (refresh_items s)\<rparr>"
      by (simp add: refresh_items_def Let_def split: prod.splits)
    then show ?thesis by (simp add: r i)
  qed
  show ?thesis
    unfolding next_item_nonempty [OF lo ne] Let_def i r
    by (simp add: host_ok_def rs)
qed

lemma example_labels:
  "label_text 0 3 = ''1 / 3'' \<and> label_text 1 3 = ''2 / 3'' \<and> label_text 2 3 = ''3 / 3''"
  by code_simp

lemma mods: "(0 + 1) mod (3::int) = 1" "(1 + 1) mod (3::int) = 2" "(2 + 1) mod (3::int) = 0"
  by simp_all


lemma next_item_general:
  assumes nn: "0 \<le> index s" and "clear_ok h" and "append_ok h"
  shows "let s1 = refresh_items s; n = int (length (items s1)); c = min (index s) (n - 1);
             r = next_item h s
         in (n = 0 \<longrightarrow> r = (Returned, s\<lparr>items := [], line_map := [], index := 0\<rparr>)) \<and>
            (0 < n \<longrightarrow>
               0 \<le> c \<and> c < n \<and> fst r = Returned \<and> textbox (snd r) = textbox s \<and>
               items (snd r) = items s1 \<and> line_map (snd r) = line_map s1 \<and>
               highlight (snd r) = {line_map s1 ! nat c} \<and>
               clipboard (snd r) = items s1 ! nat c \<and>
               label (snd r) = str_int (c + 1) @ '' / '' @ str_int n \<and>
               calls (snd r) = calls s @
                 [Tag_remove, Tag_add (line_map s1 ! nat c), See (line_map s1 ! nat c),
                  Clipboard_clear, Clipboard_append (items s1 ! nat c), Update,
                  Label_configure (str_int (c + 1) @ '' / '' @ str_int n)] \<and>
               index (snd r) = (c + 1) mod n)"
proof -
  define s1 where "s1 = refresh_items s"
  define n where "n = int (length (items s1))"
  define c where "c = min (index s) (n - 1)"
  have empty: "next_item h s = (Returned, s\<lparr>items := [], line_map := [], index := 0\<rparr>)"
    if "n = 0"
  proof -
    from that have e: "items (refresh_items s) = []" by (simp add: n_def s1_def)
    have "min (index s) 0 = 0" using nn by simp
    then show ?thesis
      by (simp add: next_item_empty [OF e] refresh_items_empty [OF e])
  qed
  have full: "0 \<le> c \<and> c < n \<and> fst (next_item h s) = Returned \<and>
               textbox (snd (next_item h s)) = textbox s \<and>
               items (snd (next_item h s)) = items s1 \<and>
               line_map (snd (next_item h s)) = line_map s1 \<and>
               highlight (snd (next_item h s)) = {line_map s1 ! nat c} \<and>
               clipboard (snd (next_item h s)) = items s1 ! nat c \<and>
               label (snd (next_item h s)) = str_int (c + 1) @ '' / '' @ str_int n \<and>
               calls (snd (next_item h s)) = calls s @
                 [Tag_remove, Tag_add (line_map s1 ! nat c), See (line_map s1 ! nat c),
                  Clipboard_clear, Clipboard_append (items s1 ! nat c), Update,
                  Label_configure (str_int (c + 1) @ '' / '' @ str_int n)] \<and>
               index (snd (next_item h s)) = (c + 1) mod n"
    if "0 < n"
  proof -
    from that have ne: "items (refresh_items s) \<noteq> []" by (auto simp: n_def s1_def)
    have i: "index s1 = c"
      using that by (simp add: s1_def c_def n_def refresh_items_index [of s])
    have c: "0 \<le> c" "c < n" using nn that by (simp_all add: c_def)
    have lt: "label_text c n = str_int (c + 1) @ '' / '' @ str_int n"
      using c by (rule label_text_in_range)
    have tb: "textbox s1 = textbox s" by (simp add: s1_def refresh_items_frame)
    show ?thesis
      unfolding next_item_nonempty [OF nn ne] Let_def s1_def [symmetric] n_def [symmetric] i lt
      using c assms(2,3) tb by simp
  qed
  show ?thesis
    unfolding Let_def s1_def [symmetric] n_def [symmetric] c_def [symmetric]
    using empty full by blast
qed

lemma example_run:
  "let a1 = snd (next_item host_ok example_app); a2 = snd (next_item host_ok a1);
       a3 = snd (next_item host_ok a2)
   in clipboard a1 = ascii ''a'' \<and> label a1 = ''1 / 3'' \<and> index a1 = 1 \<and>
      clipboard a2 = ascii ''b'' \<and> label a2 = ''2 / 3'' \<and> index a2 = 2 \<and>
      clipboard a3 = ascii ''c'' \<and> label a3 = ''3 / 3'' \<and> index a3 = 0"
proof -
  define a1 where "a1 = snd (next_item host_ok example_app)"
  define a2 where "a2 = snd (next_item host_ok a1)"
  define a3 where "a3 = snd (next_item host_ok a2)"
  have t0: "textbox example_app = example_text" "index example_app = 0"
    by (simp_all add: example_app_def init_app_def)
  have 1: "textbox a1 = example_text \<and> index a1 = 1 \<and> clipboard a1 = ascii ''a'' \<and>
           label a1 = ''1 / 3''"
    unfolding a1_def using example_step [of example_app] t0 example_labels by simp
  have 2: "textbox a2 = example_text \<and> index a2 = 2 \<and> clipboard a2 = ascii ''b'' \<and>
           label a2 = ''2 / 3''"
    unfolding a2_def using example_step [of a1] 1 example_labels by simp
  have 3: "textbox a3 = example_text \<and> index a3 = 0 \<and> clipboard a3 = ascii ''c'' \<and>
           label a3 = ''3 / 3''"
    unfolding a3_def using example_step [of a2] 2 example_labels by simp
  show ?thesis
    unfolding Let_def a1_def [symmetric] a2_def [symmetric] a3_def [symmetric]
    using 1 2 3 by simp
qed

subsection \<open>Retreating\<close>

lemma prev_item_general:
  assumes nn: "0 \<le> index s" and "clear_ok h" and "append_ok h"
  shows "let s1 = refresh_items s; n = int (length (items s1)); c = min (index s) (n - 1);
             d = (c - 1 + n) mod n; r = prev_item h s
         in (n = 0 \<longrightarrow> r = (Returned, s\<lparr>items := [], line_map := [], index := 0\<rparr>)) \<and>
            (0 < n \<longrightarrow>
               0 \<le> d \<and> d < n \<and> fst r = Returned \<and> textbox (snd r) = textbox s \<and>
               items (snd r) = items s1 \<and> line_map (snd r) = line_map s1 \<and>
               index (snd r) = d \<and>
               highlight (snd r) = {line_map s1 ! nat d} \<and>
               clipboard (snd r) = items s1 ! nat d \<and>
               label (snd r) = str_int (d + 1) @ '' / '' @ str_int n \<and>
               calls (snd r) = calls s @
                 [Tag_remove, Tag_add (line_map s1 ! nat d), See (line_map s1 ! nat d),
                  Clipboard_clear, Clipboard_append (items s1 ! nat d), Update,
                  Label_configure (str_int (d + 1) @ '' / '' @ str_int n)])"
proof -
  define s1 where "s1 = refresh_items s"
  define n where "n = int (length (items s1))"
  define c where "c = min (index s) (n - 1)"
  define d where "d = (c - 1 + n) mod n"
  have empty: "prev_item h s = (Returned, s\<lparr>items := [], line_map := [], index := 0\<rparr>)"
    if "n = 0"
  proof -
    from that have e: "items (refresh_items s) = []" by (simp add: n_def s1_def)
    have "min (index s) 0 = 0" using nn by simp
    then show ?thesis
      by (simp add: prev_item_empty [OF e] refresh_items_empty [OF e])
  qed
  have full: "0 \<le> d \<and> d < n \<and> fst (prev_item h s) = Returned \<and>
               textbox (snd (prev_item h s)) = textbox s \<and>
               items (snd (prev_item h s)) = items s1 \<and>
               line_map (snd (prev_item h s)) = line_map s1 \<and>
               index (snd (prev_item h s)) = d \<and>
               highlight (snd (prev_item h s)) = {line_map s1 ! nat d} \<and>
               clipboard (snd (prev_item h s)) = items s1 ! nat d \<and>
               label (snd (prev_item h s)) = str_int (d + 1) @ '' / '' @ str_int n \<and>
               calls (snd (prev_item h s)) = calls s @
                 [Tag_remove, Tag_add (line_map s1 ! nat d), See (line_map s1 ! nat d),
                  Clipboard_clear, Clipboard_append (items s1 ! nat d), Update,
                  Label_configure (str_int (d + 1) @ '' / '' @ str_int n)]"
    if "0 < n"
  proof -
    from that have ne: "items (refresh_items s) \<noteq> []" by (auto simp: n_def s1_def)
    have i: "index s1 = c"
      using that by (simp add: s1_def c_def n_def refresh_items_index [of s])
    have dm: "(c - 1) mod n = d" by (simp add: d_def)
    have d: "0 \<le> d" "d < n" using that by (simp_all add: d_def)
    have lt: "label_text d n = str_int (d + 1) @ '' / '' @ str_int n"
      using d by (rule label_text_in_range)
    have tb: "textbox s1 = textbox s" by (simp add: s1_def refresh_items_frame)
    show ?thesis
      unfolding prev_item_nonempty [OF nn ne] Let_def s1_def [symmetric] n_def [symmetric] i dm lt
      using d assms(2,3) tb by simp
  qed
  show ?thesis
    unfolding Let_def s1_def [symmetric] n_def [symmetric] c_def [symmetric] d_def [symmetric]
    using empty full by blast
qed

subsection \<open>The navigation claims\<close>

lemma init_refresh: "items (refresh_items (init_app clip)) = []"
  by (simp add: refresh_items_items init_app_def splitlines_Nil)

lemma host_ok_flags: "clear_ok host_ok" "append_ok host_ok"
  by (simp_all add: host_ok_def)

text \<open>
  Claim C3. In a state that the application reaches, with a clipboard that accepts the
  write: when the re-parsed sequence is empty, \<open>next_item\<close> returns having changed
  nothing that can be observed (no toolkit call, the label, the highlight and the
  clipboard as before; the re-parse itself leaves \<open>items\<close> and \<open>line_map\<close> empty and the
  cursor at 0). Otherwise, with \<open>n\<close> items and \<open>c\<close> the cursor clamped by the re-parse,
  it highlights the line of item \<open>c\<close>, copies item \<open>c\<close>, shows the label \<open>c + 1 / n\<close>, in
  this order, and leaves the cursor at \<open>(c + 1) mod n\<close>. For the text \<open>a\n\nb\nc\<close> and
  cursor 0, three calls copy \<open>a\<close>, \<open>b\<close>, \<open>c\<close>, show \<open>1 / 3\<close>, \<open>2 / 3\<close>, \<open>3 / 3\<close>, and
  leave the cursor at 1, 2 and 0.
\<close>

theorem next_item_advance:
  assumes "reachable s" and "clear_ok h" and "append_ok h"
  shows "(let s1 = refresh_items s; n = int (length (items s1)); c = min (index s) (n - 1);
              r = next_item h s
          in (n = 0 \<longrightarrow> r = (Returned, s\<lparr>items := [], line_map := [], index := 0\<rparr>)) \<and>
             (0 < n \<longrightarrow>
                0 \<le> c \<and> c < n \<and> fst r = Returned \<and> textbox (snd r) = textbox s \<and>
                items (snd r) = items s1 \<and> line_map (snd r) = line_map s1 \<and>
                highlight (snd r) = {line_map s1 ! nat c} \<and>
                clipboard (snd r) = items s1 ! nat c \<and>
                label (snd r) = str_int (c + 1) @ '' / '' @ str_int n \<and>
                calls (snd r) = calls s @
                  [Tag_remove, Tag_add (line_map s1 ! nat c), See (line_map s1 ! nat c),
                   Clipboard_clear, Clipboard_append (items s1 ! nat c), Update,
                   Label_configure (str_int (c + 1) @ '' / '' @ str_int n)] \<and>
                index (snd r) = (c + 1) mod n)) \<and>
         (let a1 = snd (next_item host_ok example_app); a2 = snd (next_item host_ok a1);
              a3 = snd (next_item host_ok a2)
          in clipboard a1 = ascii ''a'' \<and> label a1 = ''1 / 3'' \<and> index a1 = 1 \<and>
             clipboard a2 = ascii ''b'' \<and> label a2 = ''2 / 3'' \<and> index a2 = 2 \<and>
             clipboard a3 = ascii ''c'' \<and> label a3 = ''3 / 3'' \<and> index a3 = 0)"
  using next_item_general [OF reachable_index_nonneg [OF assms(1)] assms(2,3)] example_run
  by (rule conjI)

theorem next_item_advance_witness:
  "reachable example_app \<and> clear_ok host_ok \<and> append_ok host_ok \<and>
   0 < int (length (items (refresh_items example_app))) \<and>
   fst (next_item host_ok example_app) = Returned \<and>
   clipboard (snd (next_item host_ok example_app)) = ascii ''a'' \<and>
   highlight (snd (next_item host_ok example_app)) = {1} \<and>
   index (snd (next_item host_ok example_app)) = 1 \<and>
   reachable (init_app []) \<and> int (length (items (refresh_items (init_app [])))) = 0 \<and>
   next_item host_ok (init_app []) =
     (Returned, (init_app [])\<lparr>items := [], line_map := [], index := 0\<rparr>)"
proof -
  have r0: "reachable (init_app [])" by (rule reachable.start)
  have t: "textbox example_app = example_text" "index example_app = 0"
    by (simp_all add: example_app_def init_app_def)
  note e = example_refresh [OF t(1)]
  note a = next_item_advance [OF example_reachable host_ok_flags, unfolded Let_def]
  note b = next_item_advance [OF r0 host_ok_flags, unfolded Let_def]
  show ?thesis
    using a b example_reachable r0 host_ok_flags
    by (simp add: e t init_refresh)
qed

text \<open>
  Claim C4. In a state that the application reaches, with a clipboard that accepts the
  write: when the re-parsed sequence is empty, \<open>prev_item\<close> returns having changed
  nothing that can be observed. Otherwise, with \<open>n\<close> items and \<open>c\<close> the cursor clamped
  by the re-parse, it first moves the cursor to \<open>d = (c - 1 + n) mod n\<close> and then
  highlights the line of item \<open>d\<close>, copies item \<open>d\<close> and shows the label \<open>d + 1 / n\<close>:
  the item copied is the one at the cursor after the call. \<open>next_item\<close> in the same
  state copies item \<open>c\<close>, the one at the cursor before it moves to \<open>(c + 1) mod n\<close>.
\<close>

theorem prev_item_retreat:
  assumes "reachable s" and "clear_ok h" and "append_ok h"
  shows "let s1 = refresh_items s; n = int (length (items s1)); c = min (index s) (n - 1);
             d = (c - 1 + n) mod n; r = prev_item h s; a = next_item h s
         in (n = 0 \<longrightarrow> r = (Returned, s\<lparr>items := [], line_map := [], index := 0\<rparr>)) \<and>
            (0 < n \<longrightarrow>
               0 \<le> d \<and> d < n \<and> fst r = Returned \<and> textbox (snd r) = textbox s \<and>
               items (snd r) = items s1 \<and> line_map (snd r) = line_map s1 \<and>
               index (snd r) = d \<and>
               highlight (snd r) = {line_map s1 ! nat d} \<and>
               clipboard (snd r) = items s1 ! nat d \<and>
               label (snd r) = str_int (d + 1) @ '' / '' @ str_int n \<and>
               calls (snd r) = calls s @
                 [Tag_remove, Tag_add (line_map s1 ! nat d), See (line_map s1 ! nat d),
                  Clipboard_clear, Clipboard_append (items s1 ! nat d), Update,
                  Label_configure (str_int (d + 1) @ '' / '' @ str_int n)] \<and>
               clipboard (snd r) = items s1 ! nat (index (snd r)) \<and>
               clipboard (snd a) = items s1 ! nat c \<and> index (snd a) = (c + 1) mod n)"
proof -
  have nn: "0 \<le> index s" using assms(1) by (rule reachable_index_nonneg)
  note p = prev_item_general [OF nn assms(2,3), unfolded Let_def]
  note a = next_item_general [OF nn assms(2,3), unfolded Let_def]
  show ?thesis unfolding Let_def using p a by simp
qed

theorem prev_item_retreat_witness:
  "reachable example_app \<and> clear_ok host_ok \<and> append_ok host_ok \<and>
   0 < int (length (items (refresh_items example_app))) \<and>
   fst (prev_item host_ok example_app) = Returned \<and>
   index (snd (prev_item host_ok example_app)) = 2 \<and>
   clipboard (snd (prev_item host_ok example_app)) = ascii ''c'' \<and>
   highlight (snd (prev_item host_ok example_app)) = {4} \<and>
   reachable (init_app []) \<and> int (length (items (refresh_items (init_app [])))) = 0 \<and>
   prev_item host_ok (init_app []) =
     (Returned, (init_app [])\<lparr>items := [], line_map := [], index := 0\<rparr>)"
proof -
  have r0: "reachable (init_app [])" by (rule reachable.start)
  have t: "textbox example_app = example_text" "index example_app = 0"
    by (simp_all add: example_app_def init_app_def)
  note e = example_refresh [OF t(1)]
  note a = prev_item_retreat [OF example_reachable host_ok_flags, unfolded Let_def]
  note b = prev_item_retreat [OF r0 host_ok_flags, unfolded Let_def]
  show ?thesis
    using a b example_reachable r0 host_ok_flags
    by (simp add: e t init_refresh)
qed





lemma after_two_state:
  "textbox after_two = example_text \<and> index after_two = 2 \<and> label after_two = ''2 / 3'' \<and>
   clipboard after_two = ascii ''b'' \<and> highlight after_two = {3}"
proof -
  have t0: "textbox example_app = example_text" "index example_app = 0"
    by (simp_all add: example_app_def init_app_def)
  define a1 where "a1 = snd (next_item host_ok example_app)"
  have 1: "textbox a1 = example_text \<and> index a1 = 1"
    unfolding a1_def using example_step [of example_app] t0 by simp
  have "textbox (snd (next_item host_ok a1)) = example_text \<and>
        index (snd (next_item host_ok a1)) = 2 \<and>
        label (snd (next_item host_ok a1)) = ''2 / 3'' \<and>
        clipboard (snd (next_item host_ok a1)) = ascii ''b'' \<and>
        highlight (snd (next_item host_ok a1)) = {3}"
    using example_step [of a1] 1 example_labels by simp
  then show ?thesis by (simp add: after_two_def a1_def)
qed

lemma after_two_reachable: "reachable after_two"
  unfolding after_two_def by (intro reachable.intros example_reachable)

subsection \<open>The cursor after a rebuild\<close>

lemma no_index_error:
  assumes "0 \<le> index s"
  shows "fst (next_item h s) \<noteq> Raised IndexError" and "fst (prev_item h s) \<noteq> Raised IndexError"
proof -
  show "fst (next_item h s) \<noteq> Raised IndexError"
  proof (cases "items (refresh_items s) = []")
    case True
    then show ?thesis by (simp add: next_item_empty)
  next
    case False
    show ?thesis unfolding next_item_nonempty [OF assms False] by (simp add: Let_def)
  qed
  show "fst (prev_item h s) \<noteq> Raised IndexError"
  proof (cases "items (refresh_items s) = []")
    case True
    then show ?thesis by (simp add: prev_item_empty)
  next
    case False
    show ?thesis unfolding prev_item_nonempty [OF assms False] by (simp add: Let_def)
  qed
qed

lemma shrunk_refresh: "items (refresh_items shrunk_app) = [ascii ''x'']"
  by (simp add: refresh_items_items shrunk_app_def splitlines_def ascii_def is_linebreak_def
      nonblank_def is_space_def strip_def)

lemma shrunk_reachable: "reachable shrunk_app"
  unfolding shrunk_app_def by (intro reachable.intros after_two_reachable)

text \<open>
  Claim C6. In a state that the application reaches, after \<open>_refresh_items\<close> has rebuilt
  a sequence that is not empty, the cursor is an index of it, from 0 up to \<open>n - 1\<close>: a
  cursor that was at \<open>n\<close> or beyond is now \<open>n - 1\<close>, and a smaller one is unchanged.
  \<open>line_map\<close> is as long as \<open>items\<close>, so that subscripting either of them at the
  cursor, or at the cursor that \<open>prev_item\<close> moves to, does not raise; and neither
  \<open>next_item\<close> nor \<open>prev_item\<close> ends with an \<open>IndexError\<close>, whatever the clipboard
  does.
\<close>

theorem cursor_valid_after_refresh:
  assumes "reachable s"
  shows "let s1 = refresh_items s; n = int (length (items s1)); d = (index s1 - 1) mod n
         in (items s1 \<noteq> [] \<longrightarrow>
               0 \<le> index s1 \<and> index s1 < n \<and> length (line_map s1) = length (items s1) \<and>
               (n \<le> index s \<longrightarrow> index s1 = n - 1) \<and> (index s < n \<longrightarrow> index s1 = index s) \<and>
               py_index (line_map s1) (index s1) = Inr (line_map s1 ! nat (index s1)) \<and>
               py_index (items s1) (index s1) = Inr (items s1 ! nat (index s1)) \<and>
               py_index (line_map s1) d = Inr (line_map s1 ! nat d) \<and>
               py_index (items s1) d = Inr (items s1 ! nat d)) \<and>
            fst (next_item h s) \<noteq> Raised IndexError \<and>
            fst (prev_item h s) \<noteq> Raised IndexError"
proof -
  define s1 where "s1 = refresh_items s"
  define n where "n = int (length (items s1))"
  define d where "d = (index s1 - 1) mod n"
  have nn: "0 \<le> index s" using assms by (rule reachable_index_nonneg)
  have len: "length (line_map s1) = length (items s1)"
    by (simp add: s1_def refresh_items_lengths)
  have valid: "0 \<le> index s1 \<and> index s1 < n \<and> length (line_map s1) = length (items s1) \<and>
               (n \<le> index s \<longrightarrow> index s1 = n - 1) \<and> (index s < n \<longrightarrow> index s1 = index s) \<and>
               py_index (line_map s1) (index s1) = Inr (line_map s1 ! nat (index s1)) \<and>
               py_index (items s1) (index s1) = Inr (items s1 ! nat (index s1)) \<and>
               py_index (line_map s1) d = Inr (line_map s1 ! nat d) \<and>
               py_index (items s1) d = Inr (items s1 ! nat d)"
    if ne: "items s1 \<noteq> []"
  proof -
    have n: "0 < n" using ne by (simp add: n_def)
    have i: "index s1 = min (index s) (n - 1)"
      using n by (simp add: s1_def n_def refresh_items_index [of s])
    have c: "0 \<le> index s1" "index s1 < n" using nn n by (simp_all add: i)
    have d: "0 \<le> d" "d < n" using n by (simp_all add: d_def)
    have "py_index (line_map s1) (index s1) = Inr (line_map s1 ! nat (index s1))"
      using c len by (simp add: py_index_in_range n_def)
    moreover have "py_index (items s1) (index s1) = Inr (items s1 ! nat (index s1))"
      using c by (simp add: py_index_in_range n_def)
    moreover have "py_index (line_map s1) d = Inr (line_map s1 ! nat d)"
      using d len by (simp add: py_index_in_range n_def)
    moreover have "py_index (items s1) d = Inr (items s1 ! nat d)"
      using d by (simp add: py_index_in_range n_def)
    ultimately show ?thesis using c len i by simp
  qed
  show ?thesis
    unfolding Let_def s1_def [symmetric] n_def [symmetric] d_def [symmetric]
    using valid no_index_error [OF nn, of h] by blast
qed

theorem cursor_valid_after_refresh_witness:
  "reachable shrunk_app \<and> items (refresh_items shrunk_app) \<noteq> [] \<and>
   index shrunk_app = 2 \<and> int (length (items (refresh_items shrunk_app))) \<le> index shrunk_app \<and>
   index (refresh_items shrunk_app) = 0 \<and>
   py_index (items (refresh_items shrunk_app)) (index (refresh_items shrunk_app)) =
     Inr (ascii ''x'') \<and>
   reachable example_app \<and> items (refresh_items example_app) \<noteq> [] \<and>
   index example_app < int (length (items (refresh_items example_app))) \<and>
   index (refresh_items example_app) = 0"
proof -
  have i: "index shrunk_app = 2" using after_two_state by (simp add: shrunk_app_def)
  have t: "textbox example_app = example_text" "index example_app = 0"
    by (simp_all add: example_app_def init_app_def)
  note e = example_refresh [OF t(1)]
  note a = cursor_valid_after_refresh [OF shrunk_reachable, unfolded Let_def]
  note b = cursor_valid_after_refresh [OF example_reachable, unfolded Let_def]
  show ?thesis
    using a b shrunk_reachable example_reachable
    by (simp add: shrunk_refresh i e t)
qed

subsection \<open>Navigation without items\<close>

lemma blank_text_no_items:
  assumes "\<forall>l \<in> set (splitlines (textbox s)). \<not> nonblank l"
  shows "items (refresh_items s) = []"
proof -
  have "filter nonblank (splitlines (textbox s)) = []"
    using assms by (simp add: filter_empty_conv)
  then show ?thesis by (simp add: refresh_items_items)
qed

lemma blank_lines: "splitlines (textbox blank_app) = [ascii ''  '', ascii '' '']"
  by (simp add: blank_app_def ascii_def splitlines_def is_linebreak_def)

lemma blank_reachable: "reachable blank_app"
  unfolding blank_app_def by (intro reachable.intros after_two_reachable)

lemma str_int_zero: "str_int 0 = ''0''"
  by code_simp

lemma emptied_reachable: "reachable emptied_app"
  unfolding emptied_app_def by (intro reachable.intros after_two_reachable)

text \<open>
  Claim C10. In a state that the application reaches and whose text has no non-blank
  line, \<open>next_item\<close> and \<open>prev_item\<close> return with the cursor at 0 and with the label,
  the highlight and the clipboard as they were, having made no toolkit call; only
  \<open>items\<close> and \<open>line_map\<close>, now empty, and the cursor differ from the state before.
\<close>

theorem navigation_on_blank_text:
  assumes "reachable s" and "\<forall>l \<in> set (splitlines (textbox s)). \<not> nonblank l"
  shows "next_item h s = (Returned, s\<lparr>items := [], line_map := [], index := 0\<rparr>) \<and>
         prev_item h s = (Returned, s\<lparr>items := [], line_map := [], index := 0\<rparr>) \<and>
         index (snd (next_item h s)) = 0 \<and> label (snd (next_item h s)) = label s \<and>
         highlight (snd (next_item h s)) = highlight s \<and>
         clipboard (snd (next_item h s)) = clipboard s \<and>
         calls (snd (next_item h s)) = calls s \<and>
         index (snd (prev_item h s)) = 0 \<and> label (snd (prev_item h s)) = label s \<and>
         highlight (snd (prev_item h s)) = highlight s \<and>
         clipboard (snd (prev_item h s)) = clipboard s \<and>
         calls (snd (prev_item h s)) = calls s"
proof -
  have e: "items (refresh_items s) = []" using assms(2) by (rule blank_text_no_items)
  have "0 \<le> index s" using assms(1) by (rule reachable_index_nonneg)
  then have m: "min (index s) 0 = 0" by simp
  have "refresh_items s = s\<lparr>items := [], line_map := [], index := 0\<rparr>"
    using refresh_items_empty [OF e] m by simp
  then show ?thesis
    by (simp add: next_item_empty [OF e] prev_item_empty [OF e])
qed

theorem navigation_on_blank_text_witness:
  "reachable blank_app \<and> filter nonblank (splitlines (textbox blank_app)) = [] \<and>
   index blank_app = 2 \<and> index (snd (next_item host_ok blank_app)) = 0 \<and>
   label (snd (next_item host_ok blank_app)) = ''2 / 3'' \<and>
   highlight (snd (next_item host_ok blank_app)) = {3} \<and>
   clipboard (snd (next_item host_ok blank_app)) = ascii ''b'' \<and>
   index (snd (prev_item host_ok blank_app)) = 0 \<and>
   label (snd (prev_item host_ok blank_app)) = ''2 / 3''"
proof -
  have b: "\<forall>l \<in> set (splitlines (textbox blank_app)). \<not> nonblank l"
    by (simp add: blank_lines nonblank_def ascii_def is_space_def)
  have f: "index blank_app = 2 \<and> label blank_app = ''2 / 3'' \<and> highlight blank_app = {3} \<and>
           clipboard blank_app = ascii ''b''"
    using after_two_state by (simp add: blank_app_def)
  note a = navigation_on_blank_text [OF blank_reachable b, of host_ok]
  have "filter nonblank (splitlines (textbox blank_app)) = []"
    using b by (simp add: filter_empty_conv)
  then show ?thesis using a blank_reachable f by simp
qed

text \<open>
  Claim C1, on the code. After two calls of \<open>next_item\<close> on the three items of the
  example the label is \<open>2 / 3\<close>. With the text box then emptied, the sequence is empty,
  and \<open>next_item\<close>, \<open>prev_item\<close> and a further \<open>next_item\<close> all leave the label at
  \<open>2 / 3\<close>: they return before \<open>_update_label\<close>, which would have set it to \<open>0 / 0\<close>.
\<close>

theorem emptied_text_label_stale:
  "length (items after_two) = 3 \<and> label emptied_app = ''2 / 3'' \<and>
   items (refresh_items emptied_app) = [] \<and>
   label (snd (next_item host_ok emptied_app)) = ''2 / 3'' \<and>
   label (snd (prev_item host_ok emptied_app)) = ''2 / 3'' \<and>
   label (snd (next_item host_ok (snd (next_item host_ok emptied_app)))) = ''2 / 3'' \<and>
   label (update_label (refresh_items emptied_app)) = ''0 / 0''"
proof -
  have e: "items (refresh_items emptied_app) = []"
    by (simp add: refresh_items_items emptied_app_def splitlines_Nil)
  have l: "label emptied_app = ''2 / 3''"
    using after_two_state by (simp add: emptied_app_def)
  have r: "refresh_items emptied_app = emptied_app\<lparr>items := [], line_map := [],
             index := min (index emptied_app) 0\<rparr>"
    by (rule refresh_items_empty [OF e])
  have n1: "next_item host_ok emptied_app = (Returned, refresh_items emptied_app)"
    by (rule next_item_empty [OF e])
  have e2: "items (refresh_items (refresh_items emptied_app)) = []"
    by (simp add: refresh_items_items refresh_items_frame emptied_app_def splitlines_Nil)
  have n2: "label (snd (next_item host_ok (refresh_items emptied_app))) = ''2 / 3''"
    by (simp add: next_item_empty [OF e2] refresh_items_frame l)
  have u: "label (update_label (refresh_items emptied_app)) = ''0 / 0''"
    unfolding update_label_def Let_def e by (simp add: label_text_def str_int_zero)
  have t0: "textbox example_app = example_text" "index example_app = 0"
    by (simp_all add: example_app_def init_app_def)
  have i3: "length (items after_two) = 3"
  proof -
    have "textbox (snd (next_item host_ok example_app)) = example_text \<and>
          index (snd (next_item host_ok example_app)) = 1"
      using example_step [of example_app] t0 by simp
    then show ?thesis
      using example_step [of "snd (next_item host_ok example_app)"] by (simp add: after_two_def)
  qed
  show ?thesis
    using i3 l e n2 u by (simp add: n1 prev_item_empty [OF e] refresh_items_frame)
qed

subsection \<open>A clipboard that refuses the write\<close>

text \<open>
  Claim C2, as stated, at a concrete input. With the example text and a clipboard that
  refuses \<open>clipboard_clear()\<close>, \<open>next_item\<close> ends with the \<open>TclError\<close>: the line of the
  first item is highlighted, but the cursor is still 0 and the label still \<open>0 / 0\<close>,
  where a clipboard that accepts the write gives the cursor 1 and the label \<open>1 / 3\<close>.
\<close>

theorem clipboard_failure_counterexample:
  "fst (next_item failing_host example_app) = Raised TclError \<and>
   index (snd (next_item failing_host example_app)) = 0 \<and>
   label (snd (next_item failing_host example_app)) = ''0 / 0'' \<and>
   highlight (snd (next_item failing_host example_app)) = {1} \<and>
   index (snd (next_item host_ok example_app)) = 1 \<and>
   label (snd (next_item host_ok example_app)) = ''1 / 3''"
proof -
  have t: "textbox example_app = example_text" "index example_app = 0"
       "label example_app = ''0 / 0''"
    by (simp_all add: example_app_def init_app_def)
  note e = example_refresh [OF t(1)]
  have ne: "items (refresh_items example_app) \<noteq> []" by (simp add: e)
  have nn: "0 \<le> index example_app" by (simp add: t)
  have i: "index (refresh_items example_app) = 0"
    by (simp add: refresh_items_index [of example_app] t e)
  have l: "label (refresh_items example_app) = ''0 / 0''"
    by (simp add: refresh_items_frame t)
  have bad: "fst (next_item failing_host example_app) = Raised TclError \<and>
   index (snd (next_item failing_host example_app)) = 0 \<and>
   label (snd (next_item failing_host example_app)) = ''0 / 0'' \<and>
   highlight (snd (next_item failing_host example_app)) = {1}"
    unfolding next_item_nonempty [OF nn ne] Let_def
    by (simp add: failing_host_def i l e)
  have good: "index (snd (next_item host_ok example_app)) = 1 \<and>
   label (snd (next_item host_ok example_app)) = ''1 / 3''"
    using example_step [of example_app] t example_labels by simp
  show ?thesis using bad good by simp
qed

text \<open>
  Claim C2, amended. In a state that the application reaches and whose text has an item,
  when \<open>clipboard_clear()\<close> or \<open>clipboard_append()\<close> raises, \<open>next_item\<close> and
  \<open>prev_item\<close> end with that \<open>TclError\<close>; nothing in them catches it. By then the
  text is re-parsed, the cursor clamped and, in \<open>prev_item\<close>, moved back, and the line
  at the cursor highlighted; the label is as before, \<open>next_item\<close> has not moved the
  cursor forward, and the clipboard is as before when the clearing failed and empty
  when the appending failed.
\<close>

theorem clipboard_failure_propagates:
  assumes "reachable s" and "items (refresh_items s) \<noteq> []"
    and "\<not> clear_ok h \<or> \<not> append_ok h"
  shows "let s1 = refresh_items s; n = int (length (items s1)); c = min (index s) (n - 1);
             d = (c - 1 + n) mod n; a = next_item h s; r = prev_item h s
         in fst a = Raised TclError \<and> items (snd a) = items s1 \<and> index (snd a) = c \<and>
            highlight (snd a) = {line_map s1 ! nat c} \<and> label (snd a) = label s \<and>
            clipboard (snd a) = (if clear_ok h then [] else clipboard s) \<and>
            fst r = Raised TclError \<and> items (snd r) = items s1 \<and> index (snd r) = d \<and>
            highlight (snd r) = {line_map s1 ! nat d} \<and> label (snd r) = label s \<and>
            clipboard (snd r) = (if clear_ok h then [] else clipboard s)"
proof -
  define s1 where "s1 = refresh_items s"
  define n where "n = int (length (items s1))"
  define c where "c = min (index s) (n - 1)"
  define d where "d = (c - 1 + n) mod n"
  have nn: "0 \<le> index s" using assms(1) by (rule reachable_index_nonneg)
  have n: "0 < n" using assms(2) by (simp add: n_def s1_def)
  have i: "index s1 = c"
    using n by (simp add: s1_def c_def n_def refresh_items_index [of s])
  have dm: "(c - 1) mod n = d" by (simp add: d_def)
  have fr: "label s1 = label s" "clipboard s1 = clipboard s"
    by (simp_all add: s1_def refresh_items_frame)
  have a: "fst (next_item h s) = Raised TclError \<and> items (snd (next_item h s)) = items s1 \<and>
           index (snd (next_item h s)) = c \<and>
           highlight (snd (next_item h s)) = {line_map s1 ! nat c} \<and>
           label (snd (next_item h s)) = label s \<and>
           clipboard (snd (next_item h s)) = (if clear_ok h then [] else clipboard s)"
    unfolding next_item_nonempty [OF nn assms(2)] Let_def s1_def [symmetric]
    using assms(3) fr i by auto
  have r: "fst (prev_item h s) = Raised TclError \<and> items (snd (prev_item h s)) = items s1 \<and>
           index (snd (prev_item h s)) = d \<and>
           highlight (snd (prev_item h s)) = {line_map s1 ! nat d} \<and>
           label (snd (prev_item h s)) = label s \<and>
           clipboard (snd (prev_item h s)) = (if clear_ok h then [] else clipboard s)"
    unfolding prev_item_nonempty [OF nn assms(2)] Let_def s1_def [symmetric] n_def [symmetric]
    using assms(3) fr i dm by auto
  show ?thesis
    unfolding Let_def s1_def [symmetric] n_def [symmetric] c_def [symmetric] d_def [symmetric]
    using a r by simp
qed

theorem clipboard_failure_propagates_witness:
  "reachable example_app \<and> items (refresh_items example_app) \<noteq> [] \<and>
   \<not> clear_ok failing_host \<and>
   fst (prev_item failing_host example_app) = Raised TclError \<and>
   index (snd (prev_item failing_host example_app)) = 2 \<and>
   highlight (snd (prev_item failing_host example_app)) = {4} \<and>
   label (snd (prev_item failing_host example_app)) = label example_app \<and>
   clipboard (snd (prev_item failing_host example_app)) = clipboard example_app"
proof -
  have t: "textbox example_app = example_text" "index example_app = 0"
    by (simp_all add: example_app_def init_app_def)
  note e = example_refresh [OF t(1)]
  have ne: "items (refresh_items example_app) \<noteq> []" by (simp add: e)
  have f: "\<not> clear_ok failing_host \<or> \<not> append_ok failing_host"
    by (simp add: failing_host_def)
  note a = clipboard_failure_propagates [OF example_reachable ne f, unfolded Let_def]
  have "\<not> clear_ok failing_host" by (simp add: failing_host_def)
  then show ?thesis
    using a example_reachable ne f by (simp add: e t)
qed

subsection \<open>Registering the hot-keys\<close>

lemma register_loop_closed:
  assumes "value_errors_only kb (map snd hk)"
  shows "register_loop kb hk s =
     (Returned, s\<lparr>global_hotkeys := global_hotkeys s @ accepted kb hk,
                   dialogs := dialogs s @ reported kb hk\<rparr>)"
  using assms
proof (induction hk arbitrary: s)
  case Nil
  show ?case by (simp add: accepted_def reported_def)
next
  case (Cons p hk)
  obtain a combo where p: "p = (a, combo)" by (cases p)
  from Cons.prems have rest: "value_errors_only kb (map snd hk)"
    by (simp add: value_errors_only_def)
  show ?case
  proof (cases "add_hotkey kb combo")
    case None
    then show ?thesis
      by (simp add: p Cons.IH [OF rest] accepted_def reported_def)
  next
    case (Some e)
    with Cons.prems p obtain exc where e: "e = ValueError exc"
      by (cases e) (simp_all add: value_errors_only_def)
    show ?thesis
      by (simp add: p Some e Cons.IH [OF rest] accepted_def reported_def)
  qed
qed

lemma register_loop_local:
  "local_bindings (snd (register_loop kb hk s)) = local_bindings s"
proof (induction hk arbitrary: s)
  case Nil
  show ?case by simp
next
  case (Cons p hk)
  obtain a combo where p: "p = (a, combo)" by (cases p)
  show ?case
  proof (cases "add_hotkey kb combo")
    case None
    then show ?thesis by (simp add: p Cons.IH)
  next
    case (Some e)
    then show ?thesis by (cases e) (simp_all add: p Cons.IH)
  qed
qed

lemma register_local:
  "local_bindings (snd (register_global_hooks b pf kb s)) = local_bindings s"
proof -
  have "local_bindings (snd (then_do (register_loop kb hk s') f)) = local_bindings s'"
    if "\<And>s2. local_bindings (snd (f s2)) = local_bindings s2" for hk s' f
  proof (cases "register_loop kb hk s'")
    case (Pair r s2)
    have l: "local_bindings s2 = local_bindings s'"
      using register_loop_local [of kb hk s'] Pair by simp
    show ?thesis
      using that [of s2] l by (cases r) (simp_all add: then_do_def Pair)
  qed
  then show ?thesis
    by (auto simp: register_global_hooks_def Let_def split: option.splits)
qed


lemma set_accepted:
  "set (accepted kb hk) =
     {(combo, hotkey_callback a) | a combo.
        (a, combo) \<in> set hk \<and> add_hotkey kb combo = None}"
proof (induction hk)
  case Nil
  show ?case by (simp add: accepted_def)
next
  case (Cons p hk)
  obtain a combo where p: "p = (a, combo)" by (cases p)
  have "accepted kb (p # hk) =
          (case add_hotkey kb combo of None \<Rightarrow> [(combo, hotkey_callback a)] | Some e \<Rightarrow> [])
          @ accepted kb hk"
    by (simp add: accepted_def p)
  then show ?case
    using Cons.IH by (auto simp: p split: option.splits)
qed

lemma set_reported:
  "set (reported kb hk) =
     {bind_error combo exc | a combo exc.
        (a, combo) \<in> set hk \<and> add_hotkey kb combo = Some (ValueError exc)}"
proof (induction hk)
  case Nil
  show ?case by (simp add: reported_def)
next
  case (Cons p hk)
  obtain a combo where p: "p = (a, combo)" by (cases p)
  have "reported kb (p # hk) =
          (case add_hotkey kb combo of Some (ValueError exc) \<Rightarrow> [bind_error combo exc] | _ \<Rightarrow> [])
          @ reported kb hk"
    by (simp add: reported_def p)
  then show ?case
    using Cons.IH by (auto simp: p split: option.splits exn.splits)
qed

lemma bind_local_shortcuts_keys:
  "local_bindings (bind_local_shortcuts s) (ascii ''<Right>'') = Some (Direct Next)"
  "local_bindings (bind_local_shortcuts s) (ascii ''<Left>'') = Some (Direct Prev)"
  by (simp_all add: bind_local_shortcuts_def ascii_def)

lemma hotkey_callback_names:
  "hotkey_callback (ascii ''next'') = Tk_safe Next"
  "hotkey_callback (ascii ''prev'') = Tk_safe Prev"
  by (simp_all add: hotkey_callback_def ascii_def)

text \<open>
  Claim C8. Whatever the backend does, \<open>_register_global_hooks\<close> leaves the bindings of
  the window as they are, so that \<open>Right\<close> and \<open>Left\<close>, once bound by
  \<open>_bind_local_shortcuts\<close>, still call \<open>next_item\<close> and \<open>prev_item\<close>. With the
  \<open>keyboard\<close> backend, a version of it that has one of the three functions that clear
  the hot-keys, rejections that are \<open>ValueError\<close>s and an accepted \<open>ctrl+v\<close>, the
  method returns; the hot-keys registered afterwards are exactly those of the bindings
  whose combo is accepted, each with the callback of its own action, and \<open>ctrl+v\<close>,
  none of those registered before; and the errors shown are exactly those of the
  bindings whose combo is rejected, one for each, added to the earlier ones.
\<close>

theorem register_global_hooks_bindings:
  "hotkey_callback (ascii ''next'') = Tk_safe Next \<and>
   hotkey_callback (ascii ''prev'') = Tk_safe Prev \<and>
   local_bindings (snd (register_global_hooks b pf kb s)) = local_bindings s \<and>
   local_bindings (snd (register_global_hooks b pf kb (bind_local_shortcuts s)))
     (ascii ''<Right>'') = Some (Direct Next) \<and>
   local_bindings (snd (register_global_hooks b pf kb (bind_local_shortcuts s)))
     (ascii ''<Left>'') = Some (Direct Prev) \<and>
   (can_reset kb \<and> value_errors_only kb (map snd (hotkeys s)) \<and>
    add_hotkey kb (ascii ''ctrl+v'') = None \<longrightarrow>
      (let r = register_global_hooks Keyboard pf kb s
       in fst r = Returned \<and>
          global_hotkeys (snd r) = accepted kb (hotkeys s) @ [(ascii ''ctrl+v'', Tk_safe Next)] \<and>
          set (global_hotkeys (snd r)) =
            {(combo, hotkey_callback a) | a combo.
               (a, combo) \<in> set (hotkeys s) \<and> add_hotkey kb combo = None} \<union>
            {(ascii ''ctrl+v'', Tk_safe Next)} \<and>
          dialogs (snd r) = dialogs s @ reported kb (hotkeys s) \<and>
          set (reported kb (hotkeys s)) =
            {bind_error combo exc | a combo exc.
               (a, combo) \<in> set (hotkeys s) \<and> add_hotkey kb combo = Some (ValueError exc)} \<and>
          hotkeys (snd r) = hotkeys s \<and> listeners (snd r) = listeners s))"
proof -
  have cond: "fst (register_global_hooks Keyboard pf kb s) = Returned \<and>
          global_hotkeys (snd (register_global_hooks Keyboard pf kb s)) =
            accepted kb (hotkeys s) @ [(ascii ''ctrl+v'', Tk_safe Next)] \<and>
          dialogs (snd (register_global_hooks Keyboard pf kb s)) =
            dialogs s @ reported kb (hotkeys s) \<and>
          hotkeys (snd (register_global_hooks Keyboard pf kb s)) = hotkeys s \<and>
          listeners (snd (register_global_hooks Keyboard pf kb s)) = listeners s"
    if r: "can_reset kb" and v: "value_errors_only kb (map snd (hotkeys s))"
      and cv: "add_hotkey kb (ascii ''ctrl+v'') = None"
  proof -
    have reset: "reset_keyboard_hotkeys kb (global_hotkeys s) = []"
      using r by (auto simp: reset_keyboard_hotkeys_def can_reset_def)
    define s1 where "s1 = s\<lparr>global_hotkeys := []\<rparr>"
    have v1: "value_errors_only kb (map snd (hotkeys s1))" using v by (simp add: s1_def)
    note loop = register_loop_closed [OF v1, of s1]
    show ?thesis
      by (simp add: register_global_hooks_def Let_def reset s1_def [symmetric] loop
          then_do_def cv) (simp add: s1_def)
  qed
  show ?thesis
    using cond
    by (simp add: register_local bind_local_shortcuts_keys Let_def set_accepted set_reported
        hotkey_callback_names)
qed

theorem register_global_hooks_bindings_witness:
  "can_reset example_keyboard \<and>
   value_errors_only example_keyboard (map snd (hotkeys example_hooks)) \<and>
   add_hotkey example_keyboard (ascii ''ctrl+v'') = None \<and>
   add_hotkey example_keyboard (ascii ''bad!!combo'') = Some (ValueError (ascii ''unknown key'')) \<and>
   fst (register_global_hooks Keyboard False example_keyboard example_hooks) = Returned \<and>
   global_hotkeys (snd (register_global_hooks Keyboard False example_keyboard example_hooks)) =
     [(ascii ''ctrl+left'', Tk_safe Prev), (ascii ''ctrl+v'', Tk_safe Next)] \<and>
   dialogs (snd (register_global_hooks Keyboard False example_keyboard example_hooks)) =
     [bind_error (ascii ''bad!!combo'') (ascii ''unknown key'')] \<and>
   local_bindings (snd (register_global_hooks Keyboard False example_keyboard example_hooks))
     (ascii ''<Right>'') = Some (Direct Next) \<and>
   local_bindings (snd (register_global_hooks Keyboard False example_keyboard example_hooks))
     (ascii ''<Left>'') = Some (Direct Prev)"
proof -
  have hk: "hotkeys example_hooks =
      [(ascii ''next'', ascii ''bad!!combo''), (ascii ''prev'', ascii ''ctrl+left'')]"
    "dialogs example_hooks = []"
    by (simp_all add: example_hooks_def bind_local_shortcuts_def)
  have lb: "local_bindings example_hooks (ascii ''<Right>'') = Some (Direct Next)"
    "local_bindings example_hooks (ascii ''<Left>'') = Some (Direct Prev)"
    by (simp_all add: example_hooks_def bind_local_shortcuts_def ascii_def)
  have k: "add_hotkey example_keyboard (ascii ''ctrl+v'') = None"
    "add_hotkey example_keyboard (ascii ''ctrl+left'') = None"
    "add_hotkey example_keyboard (ascii ''bad!!combo'') = Some (ValueError (ascii ''unknown key''))"
    by (simp_all add: example_keyboard_def ascii_def)
  have c: "can_reset example_keyboard"
    by (simp add: can_reset_def example_keyboard_def)
  have v: "value_errors_only example_keyboard (map snd (hotkeys example_hooks))"
    by (simp add: value_errors_only_def hk k)
  have acc: "accepted example_keyboard (hotkeys example_hooks) = [(ascii ''ctrl+left'', Tk_safe Prev)]"
    by (simp add: accepted_def hk k hotkey_callback_def) (simp add: ascii_def)
  have rep: "reported example_keyboard (hotkeys example_hooks) =
      [bind_error (ascii ''bad!!combo'') (ascii ''unknown key'')]"
    by (simp add: reported_def hk k)
  note t = register_global_hooks_bindings [of Keyboard False example_keyboard example_hooks,
      unfolded Let_def]
  show ?thesis
    using t c v k by (simp add: acc [unfolded hk] rep [unfolded hk] hk lb)
qed

subsection \<open>Line numbers and the lines of the text box\<close>

lemma next_item_known:
  assumes it: "items (refresh_items s) = its" and lm: "line_map (refresh_items s) = lm"
    and lo: "0 \<le> index s" and hi: "index s < int (length its)"
  shows "fst (next_item host_ok s) = Returned \<and>
         textbox (snd (next_item host_ok s)) = textbox s \<and>
         index (snd (next_item host_ok s)) = (index s + 1) mod int (length its) \<and>
         clipboard (snd (next_item host_ok s)) = its ! nat (index s) \<and>
         highlight (snd (next_item host_ok s)) = {lm ! nat (index s)}"
proof -
  have "its \<noteq> []" using lo hi by (cases its) auto
  then have n: "0 < int (length (items (refresh_items s)))" by (simp add: it)
  have m: "min (index s) (int (length its) - 1) = index s" using hi by simp
  note g = next_item_general [OF lo host_ok_flags, unfolded Let_def, THEN conjunct2,
      rule_format, OF n]
  show ?thesis using g by (simp add: it lm m)
qed

lemma tab_lines: "text_lines (textbox tab_app) = [[0x61, 0x0B, 0x62], ascii ''c'']"
  by (simp add: tab_app_def tab_text_def text_lines_def ascii_def)

lemma tab_splitlines: "splitlines tab_text = [ascii ''a'', ascii ''b'', ascii ''c'']"
  by (simp add: tab_text_def splitlines_def is_linebreak_def ascii_def)

lemma tab_refresh:
  assumes "textbox s = tab_text"
  shows "items (refresh_items s) = [ascii ''a'', ascii ''b'', ascii ''c'']"
    and "line_map (refresh_items s) = [1, 2, 3]"
proof -
  have nb: "filter nonblank [ascii ''a'', ascii ''b'', ascii ''c''] =
            [ascii ''a'', ascii ''b'', ascii ''c'']"
    by (simp add: nonblank_def is_space_def ascii_def)
  have st: "map strip [ascii ''a'', ascii ''b'', ascii ''c''] = [ascii ''a'', ascii ''b'', ascii ''c'']"
    by (simp add: strip_def is_space_def ascii_def)
  show "items (refresh_items s) = [ascii ''a'', ascii ''b'', ascii ''c'']"
    by (simp only: refresh_items_items assms tab_splitlines nb st)
  have up: "[0..<3] = [0, 1, 2::nat]" by (simp add: upt_rec)
  show "line_map (refresh_items s) = [1, 2, 3]"
    unfolding refresh_items_line_map assms tab_splitlines
    by (simp add: up nonblank_def is_space_def ascii_def)
qed

text \<open>
  Claim C5, on the code. The text \<open>a\<close>, vertical tab, \<open>b\<close>, LF, \<open>c\<close> has two lines in
  the text box, both non-blank, so that the claim asks for two items, the first line
  stripped and \<open>c\<close>, with the line numbers 1 and 2. \<open>_refresh_items\<close> yields three
  items, \<open>a\<close>, \<open>b\<close> and \<open>c\<close>, numbered 1, 2 and 3, because \<open>str.splitlines\<close> cuts at
  the vertical tab as well. The item \<open>b\<close> carries the number 2, and line 2 of the text
  box is \<open>c\<close>: the second \<open>next_item\<close> copies \<open>b\<close> and highlights line 2.
\<close>

theorem refresh_items_vertical_tab:
  "text_lines (textbox tab_app) = [[0x61, 0x0B, 0x62], ascii ''c''] \<and>
   length (filter nonblank (text_lines (textbox tab_app))) = 2 \<and>
   map strip (filter nonblank (text_lines (textbox tab_app))) = [[0x61, 0x0B, 0x62], ascii ''c''] \<and>
   items (refresh_items tab_app) = [ascii ''a'', ascii ''b'', ascii ''c''] \<and>
   line_map (refresh_items tab_app) = [1, 2, 3] \<and>
   length (items (refresh_items tab_app)) = 3 \<and>
   items (refresh_items tab_app) ! 1 = ascii ''b'' \<and>
   line_map (refresh_items tab_app) ! 1 = 2 \<and>
   text_lines (textbox tab_app) ! (2 - 1) = ascii ''c'' \<and>
   clipboard (snd (next_item host_ok (snd (next_item host_ok tab_app)))) = ascii ''b'' \<and>
   highlight (snd (next_item host_ok (snd (next_item host_ok tab_app)))) = {2}"
proof -
  have t: "textbox tab_app = tab_text" "index tab_app = 0"
    by (simp_all add: tab_app_def init_app_def)
  note r = tab_refresh [OF t(1)]
  have nb: "filter nonblank (text_lines (textbox tab_app)) = [[0x61, 0x0B, 0x62], ascii ''c'']"
    by (simp add: tab_lines nonblank_def is_space_def ascii_def)
  have st: "map strip [[0x61, 0x0B, 0x62], ascii ''c''] = [[0x61, 0x0B, 0x62], ascii ''c'']"
    by (simp add: strip_def is_space_def ascii_def)
  define a1 where "a1 = snd (next_item host_ok tab_app)"
  have 1: "textbox a1 = tab_text \<and> index a1 = 1"
    unfolding a1_def using next_item_known [OF r, of] t by simp
  note r1 = tab_refresh [of a1]
  have 2: "clipboard (snd (next_item host_ok a1)) = ascii ''b'' \<and>
           highlight (snd (next_item host_ok a1)) = {2}"
    using next_item_known [OF r1] 1 by simp
  have f1: "length (filter nonblank (text_lines (textbox tab_app))) = 2"
    by (simp only: nb) simp
  have f2: "map strip (filter nonblank (text_lines (textbox tab_app))) =
            [[0x61, 0x0B, 0x62], ascii ''c'']"
    by (simp only: nb st)
  have f3: "length (items (refresh_items tab_app)) = 3"
       "items (refresh_items tab_app) ! 1 = ascii ''b''"
       "line_map (refresh_items tab_app) ! 1 = 2"
    by (simp_all add: r)
  have f4: "text_lines (textbox tab_app) ! (2 - 1) = ascii ''c''"
    by (simp add: tab_lines)
  from tab_lines f1 f2 r f3 f4 2 [unfolded a1_def] show ?thesis
    by blast
qed

end
